theory Spec2Isabelle
  imports Complex_Main "HOL-Library.Word"
begin

unbundle bit_operations_syntax

section \<open>Errors\<close>

text \<open>
  Every \<^verbatim>\<open>throw\<close> of the source, and every failure of the JavaScript runtime that the
  source can run into, is a value of this type. \<open>UnknownCommand c\<close> is
  \<^verbatim>\<open>throw new Error(`unknown command ${cmd}`)\<close>; \<open>TypeError\<close> is what the runtime raises
  when a property of \<^verbatim>\<open>undefined\<close> is read or called (\<^verbatim>\<open>line.push\<close> with no
  \<^verbatim>\<open>line\<close>, \<^verbatim>\<open>polygon.push\<close> with no \<^verbatim>\<open>polygon\<close>); \<open>MalformedBuffer\<close> is the
  reader's failure on a varint that is truncated or too long.
\<close>

datatype error = UnknownCommand int | TypeError | MalformedBuffer

section \<open>JavaScript numbers that hold integers\<close>

text \<open>
  The decoder and the ring classifier compute with JavaScript numbers, which are IEEE 754
  double-precision values. Every number they handle is an integer, so it is modelled as an
  \<open>int\<close>, and every addition, subtraction and multiplication of the source is followed
  by the rounding of its exact result to the nearest double, ties to the even significand:
  \<^verbatim>\<open>a + b\<close> is \<open>round_double (a + b)\<close>. An integer below \<open>2 ^ 53\<close> in magnitude is a double
  and is left as it is; a larger one keeps its 53 leading bits. (Overflow to
  \<^verbatim>\<open>Infinity\<close>, beyond \<open>2 ^ 1024\<close>, is out of reach of sums and products of decoded
  coordinates and is not modelled.)
\<close>

fun bit_length :: "nat \<Rightarrow> nat" where
  "bit_length n = (if n = 0 then 0 else Suc (bit_length (n div 2)))"

declare bit_length.simps [simp del]

definition round_double :: "int \<Rightarrow> int" where
  "round_double n =
     (let m = nat \<bar>n\<bar>;
          e = bit_length m - 53;
          q = m div 2 ^ e;
          r = m mod 2 ^ e
      in if e = 0 then n
         else sgn n * int ((if 2 ^ e < 2 * r \<or> (2 * r = 2 ^ e \<and> odd q) then q + 1 else q) * 2 ^ e))"

section \<open>The protocol-buffer reader\<close>

text \<open>
  The reader object \<^verbatim>\<open>pbf\<close>: a byte buffer and the shared read cursor \<^verbatim>\<open>pbf.pos\<close>.
\<close>

record Pbf =
  buf :: "8 word list"
  pos :: nat

text \<open>
  Modelled from the spec: the external protocol-buffer primitive reader
  (\<^verbatim>\<open>pbf.readVarint\<close>, \<^verbatim>\<open>pbf.readSVarint\<close>), which is not part of the sources. A varint is
  little-endian base 128: seven payload bits per byte, the high bit set on every byte but
  the last, at most ten bytes. \<open>varint k bs\<close> decodes the varint at the head of \<open>bs\<close>
  after \<open>k\<close> bytes of it have been consumed, returning its value and its length in bytes;
  \<open>None\<close> is a varint that runs off the buffer or past ten bytes. \<open>readVarint\<close> returns
  the value as a JavaScript number.
\<close>

fun varint :: "nat \<Rightarrow> 8 word list \<Rightarrow> (nat \<times> nat) option" where
  "varint k [] = None"
| "varint k (b # bs) =
     (if 10 \<le> k then None
      else if b < 0x80 then Some (unat b, 1)
      else (case varint (k + 1) bs of
              None \<Rightarrow> None
            | Some (v, n) \<Rightarrow> Some (unat (b AND 0x7f) + 128 * v, n + 1)))"

definition readVarint :: "Pbf \<Rightarrow> error + (int \<times> Pbf)" where
  "readVarint p =
     (case varint 0 (drop (pos p) (buf p)) of
        None \<Rightarrow> Inl MalformedBuffer
      | Some (v, n) \<Rightarrow> Inr (round_double (int v), p\<lparr>pos := pos p + n\<rparr>))"

text \<open>
  Modelled from the spec: the signed (zigzag) varint of the same external reader,
  \<^verbatim>\<open>num % 2 === 1 ? (num + 1) / -2 : num / 2\<close>.
\<close>

definition readSVarint :: "Pbf \<Rightarrow> error + (int \<times> Pbf)" where
  "readSVarint p =
     (case readVarint p of
        Inl e \<Rightarrow> Inl e
      | Inr (num, p') \<Rightarrow>
          Inr (if num mod 2 = 1 then (num + 1) div (- 2) else num div 2, p'))"

text \<open>
  JavaScript's bit operators work on the 32-bit two's complement reading of their
  operands: \<^verbatim>\<open>cmdLen & 0x7\<close> is \<open>toInt32 cmdLen AND 7\<close> and \<^verbatim>\<open>cmdLen >> 3\<close>, the
  sign-propagating shift, is \<open>drop_bit 3 (toInt32 cmdLen)\<close>.
\<close>

definition toInt32 :: "int \<Rightarrow> int" where
  "toInt32 n = (n + 2 ^ 31) mod 2 ^ 32 - 2 ^ 31"

section \<open>Points and features\<close>

text \<open>
  \<^verbatim>\<open>new Point(x, y)\<close> of the external point type; tile coordinates are integers.
\<close>

datatype Point = Point (px: int) (py: int)

datatype prop_value = PString string | PNumber int | PBool bool | PNull

text \<open>
  A \<^verbatim>\<open>VectorTileFeature\<close> after its constructor has run. The fields are the source's
  \<^verbatim>\<open>properties\<close>, \<^verbatim>\<open>extent\<close>, \<^verbatim>\<open>type\<close>, \<^verbatim>\<open>id\<close> (absent when the feature has none),
  \<^verbatim>\<open>_pbf\<close> and \<^verbatim>\<open>_geometry\<close>, the offset of the length-prefixed geometry field.
\<close>

record Feature =
  f_properties :: "(string \<times> prop_value) list"
  f_extent :: real
  f_type :: nat
  f_id :: "int option"
  f_pbf :: Pbf
  f_geometry :: nat

section \<open>The command-stream decoder\<close>

text \<open>
  The local variables shared by the loops of \<^verbatim>\<open>loadGeometry\<close> and \<^verbatim>\<open>bbox\<close>:
  \<^verbatim>\<open>pbf\<close>, \<^verbatim>\<open>cmd\<close>, \<^verbatim>\<open>length\<close>, \<^verbatim>\<open>x\<close>, \<^verbatim>\<open>y\<close>.
\<close>

record cursor =
  s_pbf :: Pbf
  s_cmd :: int
  s_length :: int
  s_x :: int
  s_y :: int

text \<open>
  The head of both loop bodies:
  \<^verbatim>\<open>if (length <= 0) { cmdLen = pbf.readVarint(); cmd = cmdLen & 0x7; length = cmdLen >> 3; }\<close>
  followed by \<^verbatim>\<open>length--\<close>.
\<close>

definition read_command :: "'a cursor_scheme \<Rightarrow> error + 'a cursor_scheme" where
  "read_command s =
     (if s_length s \<le> 0 then
        (case readVarint (s_pbf s) of
           Inl e \<Rightarrow> Inl e
         | Inr (cmdLen, p) \<Rightarrow>
             Inr (s\<lparr>s_pbf := p, s_cmd := toInt32 cmdLen AND 7,
                    s_length := drop_bit 3 (toInt32 cmdLen) - 1\<rparr>))
      else Inr (s\<lparr>s_length := s_length s - 1\<rparr>))"

text \<open>
  \<^verbatim>\<open>x += pbf.readSVarint(); y += pbf.readSVarint();\<close>
\<close>

definition read_delta :: "'a cursor_scheme \<Rightarrow> error + 'a cursor_scheme" where
  "read_delta s =
     (case readSVarint (s_pbf s) of
        Inl e \<Rightarrow> Inl e
      | Inr (dx, p1) \<Rightarrow>
          (case readSVarint p1 of
             Inl e \<Rightarrow> Inl e
           | Inr (dy, p2) \<Rightarrow>
               Inr (s\<lparr>s_pbf := p2, s_x := round_double (s_x s + dx),
                      s_y := round_double (s_y s + dy)\<rparr>)))"

subsection \<open>loadGeometry\<close>

text \<open>
  \<^verbatim>\<open>lines\<close> and \<^verbatim>\<open>line\<close>; \<open>None\<close> is the \<^verbatim>\<open>undefined\<close> of a \<^verbatim>\<open>line\<close> not yet
  created (an array, even an empty one, is truthy).
\<close>

record lg_state = cursor +
  s_lines :: "Point list list"
  s_line :: "Point list option"

text \<open>One pass through the body of the \<^verbatim>\<open>while\<close> loop of \<^verbatim>\<open>loadGeometry\<close>.\<close>

definition loadGeometry_step :: "lg_state \<Rightarrow> error + lg_state" where
  "loadGeometry_step s =
     (case read_command s of
        Inl e \<Rightarrow> Inl e
      | Inr s1 \<Rightarrow>
          if s_cmd s1 = 1 \<or> s_cmd s1 = 2 then
            (case read_delta s1 of
               Inl e \<Rightarrow> Inl e
             | Inr s2 \<Rightarrow>
                 let s3 = (if s_cmd s2 = 1 then
                             s2\<lparr>s_lines := (case s_line s2 of
                                               Some l \<Rightarrow> s_lines s2 @ [l]
                                             | None \<Rightarrow> s_lines s2),
                                 s_line := Some []\<rparr>
                           else s2)
                 in (case s_line s3 of
                       None \<Rightarrow> Inl TypeError
                     | Some l \<Rightarrow> Inr (s3\<lparr>s_line := Some (l @ [Point (s_x s3) (s_y s3)])\<rparr>)))
          else if s_cmd s1 = 7 then
            (case s_line s1 of
               Some l \<Rightarrow>
                 (case l of
                    [] \<Rightarrow> Inl TypeError
                  | p # _ \<Rightarrow> Inr (s1\<lparr>s_line := Some (l @ [p])\<rparr>))
             | None \<Rightarrow> Inr s1)
          else Inl (UnknownCommand (s_cmd s1)))"

text \<open>
  A successful read moves the cursor forward and leaves the buffer alone; this is what
  makes the loops terminate.
\<close>

lemma varint_length: "varint k bs = Some (v, n) \<Longrightarrow> 1 \<le> n \<and> n \<le> length bs"
  by (induction k bs arbitrary: v n rule: varint.induct)
     (auto split: if_splits option.splits)

lemma readVarint_pos:
  "readVarint p = Inr (v, p') \<Longrightarrow> pos p < pos p' \<and> buf p' = buf p"
  by (auto simp: readVarint_def split: option.splits dest: varint_length)

lemma readSVarint_pos:
  "readSVarint p = Inr (v, p') \<Longrightarrow> pos p < pos p' \<and> buf p' = buf p"
  by (auto simp: readSVarint_def split: sum.splits dest: readVarint_pos)

lemma read_command_pos:
  "read_command s = Inr s1 \<Longrightarrow>
     pos (s_pbf s) < pos (s_pbf s1) \<or>
     (s_pbf s1 = s_pbf s \<and> s_cmd s1 = s_cmd s \<and> 0 \<le> s_length s1 \<and> s_length s1 < s_length s)"
  by (auto simp: read_command_def split: if_splits sum.splits dest: readVarint_pos)

lemma read_delta_pos:
  "read_delta s = Inr s2 \<Longrightarrow>
     pos (s_pbf s) < pos (s_pbf s2) \<and> s_cmd s2 = s_cmd s \<and> s_length s2 = s_length s"
  by (fastforce simp: read_delta_def split: sum.splits dest: readSVarint_pos)

lemma loadGeometry_step_decreases:
  assumes "loadGeometry_step s = Inr s'"
  shows "pos (s_pbf s) < pos (s_pbf s') \<or>
         (pos (s_pbf s') = pos (s_pbf s) \<and> 0 \<le> s_length s' \<and> s_length s' < s_length s)"
proof -
  from assms obtain s1 where s1: "read_command s = Inr s1"
    by (auto simp: loadGeometry_step_def split: sum.splits)
  show ?thesis
  proof (cases "s_cmd s1 = 1 \<or> s_cmd s1 = 2")
    case True
    with assms s1 obtain s2 where s2: "read_delta s1 = Inr s2"
      by (auto simp: loadGeometry_step_def split: sum.splits)
    with assms s1 True have "s_pbf s' = s_pbf s2"
      by (auto simp: loadGeometry_step_def Let_def split: sum.splits option.splits if_splits)
    moreover from read_delta_pos [OF s2] have "pos (s_pbf s1) < pos (s_pbf s2)" by simp
    moreover from read_command_pos [OF s1] have "pos (s_pbf s) \<le> pos (s_pbf s1)" by auto
    ultimately show ?thesis by simp
  next
    case False
    with assms s1 have "s_pbf s' = s_pbf s1 \<and> s_length s' = s_length s1"
      by (auto simp: loadGeometry_step_def split: sum.splits option.splits list.splits if_splits)
    with read_command_pos [OF s1] show ?thesis by auto
  qed
qed

text \<open>
  The \<^verbatim>\<open>while (pbf.pos < end)\<close> loop of \<^verbatim>\<open>loadGeometry\<close>. An exception leaves the loop
  and the function at once, so an \<open>Inl\<close> of the body is the result of the loop.
\<close>

function loadGeometry_loop :: "nat \<Rightarrow> lg_state \<Rightarrow> error + lg_state" where
  "loadGeometry_loop endp s =
     (if pos (s_pbf s) < endp then
        (case loadGeometry_step s of
           Inl e \<Rightarrow> Inl e
         | Inr s' \<Rightarrow> loadGeometry_loop endp s')
      else Inr s)"
  by pat_completeness auto
termination
proof (relation "measures [\<lambda>(endp, s). endp - pos (s_pbf s), \<lambda>(endp, s). nat (s_length s)]")
  fix endp :: nat and s s' :: lg_state
  assume "pos (s_pbf s) < endp" and "loadGeometry_step s = Inr s'"
  then show "((endp, s'), (endp, s)) \<in>
      measures [\<lambda>(endp, s). endp - pos (s_pbf s), \<lambda>(endp, s). nat (s_length s)]"
    using loadGeometry_step_decreases [of s s'] by auto
qed simp

declare loadGeometry_loop.simps [simp del]

text \<open>
  \<^verbatim>\<open>pbf.pos = this._geometry\<close>: both decoders start by moving the shared cursor to the
  feature's geometry field.
\<close>

definition geometry_start :: "Feature \<Rightarrow> Pbf" where
  "geometry_start f = (f_pbf f)\<lparr>pos := f_geometry f\<rparr>"

text \<open>
  The variables as \<^verbatim>\<open>loadGeometry\<close> declares them, once the length prefix of the
  geometry field has been read.
\<close>

definition loadGeometry_init :: "Pbf \<Rightarrow> lg_state" where
  "loadGeometry_init p =
     \<lparr>s_pbf = p, s_cmd = 1, s_length = 0, s_x = 0, s_y = 0, s_lines = [], s_line = None\<rparr>"

text \<open>\<^verbatim>\<open>if (line) lines.push(line); return lines;\<close>\<close>

definition loadGeometry_result :: "lg_state \<Rightarrow> Point list list" where
  "loadGeometry_result s =
     (case s_line s of Some l \<Rightarrow> s_lines s @ [l] | None \<Rightarrow> s_lines s)"

text \<open>
  \<^verbatim>\<open>VectorTileFeature.prototype.loadGeometry\<close>. In
  \<^verbatim>\<open>end = pbf.readVarint() + pbf.pos\<close> the length prefix is read before the position.
  (This sum is kept exact: the cursor stays below the length of the buffer, and the test
  \<^verbatim>\<open>pbf.pos < end\<close> has the same outcome for the exact and the rounded sum.)
\<close>

definition loadGeometry :: "Feature \<Rightarrow> error + Point list list" where
  "loadGeometry f =
     (case readVarint (geometry_start f) of
        Inl e \<Rightarrow> Inl e
      | Inr (n, p) \<Rightarrow>
          (case loadGeometry_loop (nat n + pos p) (loadGeometry_init p) of
             Inl e \<Rightarrow> Inl e
           | Inr s \<Rightarrow> Inr (loadGeometry_result s)))"

subsection \<open>bbox\<close>

text \<open>
  The extrema of \<^verbatim>\<open>bbox\<close> start at \<^verbatim>\<open>Infinity\<close> and \<^verbatim>\<open>-Infinity\<close> and hold integers
  afterwards.
\<close>

datatype extremum = MinusInfinity | Finite int | Infinity

fun less_ext :: "int \<Rightarrow> extremum \<Rightarrow> bool" where
  "less_ext v MinusInfinity = False"
| "less_ext v (Finite b) = (v < b)"
| "less_ext v Infinity = True"

fun greater_ext :: "int \<Rightarrow> extremum \<Rightarrow> bool" where
  "greater_ext v MinusInfinity = True"
| "greater_ext v (Finite b) = (v > b)"
| "greater_ext v Infinity = False"

record bbox_state = cursor +
  s_x1 :: extremum
  s_x2 :: extremum
  s_y1 :: extremum
  s_y2 :: extremum

text \<open>One pass through the body of the \<^verbatim>\<open>while\<close> loop of \<^verbatim>\<open>bbox\<close>.\<close>

definition bbox_step :: "bbox_state \<Rightarrow> error + bbox_state" where
  "bbox_step s =
     (case read_command s of
        Inl e \<Rightarrow> Inl e
      | Inr s1 \<Rightarrow>
          if s_cmd s1 = 1 \<or> s_cmd s1 = 2 then
            (case read_delta s1 of
               Inl e \<Rightarrow> Inl e
             | Inr s2 \<Rightarrow>
                 Inr (s2\<lparr>s_x1 := (if less_ext (s_x s2) (s_x1 s2) then Finite (s_x s2) else s_x1 s2),
                         s_x2 := (if greater_ext (s_x s2) (s_x2 s2) then Finite (s_x s2) else s_x2 s2),
                         s_y1 := (if less_ext (s_y s2) (s_y1 s2) then Finite (s_y s2) else s_y1 s2),
                         s_y2 := (if greater_ext (s_y s2) (s_y2 s2) then Finite (s_y s2) else s_y2 s2)\<rparr>))
          else if s_cmd s1 \<noteq> 7 then Inl (UnknownCommand (s_cmd s1))
          else Inr s1)"

lemma bbox_step_decreases:
  assumes "bbox_step s = Inr s'"
  shows "pos (s_pbf s) < pos (s_pbf s') \<or>
         (pos (s_pbf s') = pos (s_pbf s) \<and> 0 \<le> s_length s' \<and> s_length s' < s_length s)"
proof -
  from assms obtain s1 where s1: "read_command s = Inr s1"
    by (auto simp: bbox_step_def split: sum.splits)
  show ?thesis
  proof (cases "s_cmd s1 = 1 \<or> s_cmd s1 = 2")
    case True
    with assms s1 obtain s2 where s2: "read_delta s1 = Inr s2"
      by (auto simp: bbox_step_def split: sum.splits)
    with assms s1 True have "s_pbf s' = s_pbf s2"
      by (auto simp: bbox_step_def split: sum.splits)
    moreover from read_delta_pos [OF s2] have "pos (s_pbf s1) < pos (s_pbf s2)" by simp
    moreover from read_command_pos [OF s1] have "pos (s_pbf s) \<le> pos (s_pbf s1)" by auto
    ultimately show ?thesis by simp
  next
    case False
    with assms s1 have "s' = s1"
      by (auto simp: bbox_step_def split: sum.splits if_splits)
    with read_command_pos [OF s1] show ?thesis by auto
  qed
qed

function bbox_loop :: "nat \<Rightarrow> bbox_state \<Rightarrow> error + bbox_state" where
  "bbox_loop endp s =
     (if pos (s_pbf s) < endp then
        (case bbox_step s of
           Inl e \<Rightarrow> Inl e
         | Inr s' \<Rightarrow> bbox_loop endp s')
      else Inr s)"
  by pat_completeness auto
termination
proof (relation "measures [\<lambda>(endp, s). endp - pos (s_pbf s), \<lambda>(endp, s). nat (s_length s)]")
  fix endp :: nat and s s' :: bbox_state
  assume "pos (s_pbf s) < endp" and "bbox_step s = Inr s'"
  then show "((endp, s'), (endp, s)) \<in>
      measures [\<lambda>(endp, s). endp - pos (s_pbf s), \<lambda>(endp, s). nat (s_length s)]"
    using bbox_step_decreases [of s s'] by auto
qed simp

declare bbox_loop.simps [simp del]

definition bbox_init :: "Pbf \<Rightarrow> bbox_state" where
  "bbox_init p =
     \<lparr>s_pbf = p, s_cmd = 1, s_length = 0, s_x = 0, s_y = 0,
      s_x1 = Infinity, s_x2 = MinusInfinity, s_y1 = Infinity, s_y2 = MinusInfinity\<rparr>"

text \<open>
  \<^verbatim>\<open>VectorTileFeature.prototype.bbox\<close>, returning \<^verbatim>\<open>[x1, y1, x2, y2]\<close>.
\<close>

definition bbox :: "Feature \<Rightarrow> error + extremum list" where
  "bbox f =
     (case readVarint (geometry_start f) of
        Inl e \<Rightarrow> Inl e
      | Inr (n, p) \<Rightarrow>
          (case bbox_loop (nat n + pos p) (bbox_init p) of
             Inl e \<Rightarrow> Inl e
           | Inr s \<Rightarrow> Inr [s_x1 s, s_y1 s, s_x2 s, s_y2 s]))"

section \<open>Runs of the decoder loops\<close>

text \<open>
  \<open>run step cur cmd_of endp s0 cs s\<close>: starting the loop \<^verbatim>\<open>while (pbf.pos < end)\<close> in
  state \<open>s0\<close>, the loop body has run some number of times without raising and has
  reached state \<open>s\<close>; \<open>cs\<close> lists the command codes the passes executed, in order.
\<close>

inductive run :: "('s \<Rightarrow> error + 's) \<Rightarrow> ('s \<Rightarrow> nat) \<Rightarrow> ('s \<Rightarrow> int) \<Rightarrow> nat \<Rightarrow> 's \<Rightarrow> int list \<Rightarrow> 's \<Rightarrow> bool"
  for step :: "'s \<Rightarrow> error + 's" and cur :: "'s \<Rightarrow> nat" and cmd_of :: "'s \<Rightarrow> int" and endp :: nat and s0 :: 's
where
  run_start: "run step cur cmd_of endp s0 [] s0"
| run_step: "run step cur cmd_of endp s0 cs s \<Longrightarrow> cur s < endp \<Longrightarrow> step s = Inr s' \<Longrightarrow>
     run step cur cmd_of endp s0 (cs @ [cmd_of s']) s'"

code_pred run .

definition lg_run :: "nat \<Rightarrow> lg_state \<Rightarrow> int list \<Rightarrow> lg_state \<Rightarrow> bool" where
  "lg_run = run loadGeometry_step (\<lambda>s. pos (s_pbf s)) s_cmd"

definition bbox_run :: "nat \<Rightarrow> bbox_state \<Rightarrow> int list \<Rightarrow> bbox_state \<Rightarrow> bool" where
  "bbox_run = run bbox_step (\<lambda>s. pos (s_pbf s)) s_cmd"

section \<open>Concrete geometry fields\<close>

text \<open>
  Features over small hand-encoded geometry fields, used to run the decoders. A command
  header is \<open>(count << 3) | code\<close>; a delta \<open>d \<ge> 0\<close> is the zigzag varint \<open>2 * d\<close>.
  \<open>closed_ring_bytes\<close> is \<^verbatim>\<open>MoveTo(0,0) LineTo(2,0) LineTo(2,2) ClosePath\<close> with the two
  \<^verbatim>\<open>LineTo\<close> under one header of count 2, \<open>closed_ring_bytes'\<close> the same path with one
  header per command; \<open>two_rings_bytes\<close> is \<^verbatim>\<open>MoveTo(1,1) LineTo(1,0) MoveTo(2,2)\<close>;
  \<open>unknown_bytes\<close> is \<^verbatim>\<open>MoveTo(1,1)\<close> followed by a header whose command code is 3;
  \<open>lineTo_first_bytes\<close> is \<^verbatim>\<open>ClosePath LineTo(1,1)\<close>, with no \<^verbatim>\<open>MoveTo\<close>.
\<close>

definition feature_of :: "8 word list \<Rightarrow> Feature" where
  "feature_of bs = \<lparr>f_properties = [], f_extent = 4096, f_type = 3, f_id = None,
                     f_pbf = \<lparr>buf = bs, pos = 0\<rparr>, f_geometry = 0\<rparr>"

definition closed_ring_bytes :: "8 word list" where
  "closed_ring_bytes = [9, 9, 0, 0, 18, 4, 0, 0, 4, 15]"

definition closed_ring_bytes' :: "8 word list" where
  "closed_ring_bytes' = [10, 9, 0, 0, 10, 4, 0, 10, 0, 4, 15]"

definition two_rings_bytes :: "8 word list" where
  "two_rings_bytes = [9, 9, 2, 2, 10, 2, 0, 9, 4, 4]"

definition unknown_bytes :: "8 word list" where
  "unknown_bytes = [4, 9, 2, 2, 3]"

definition after_MoveTo :: "lg_state" where
  "after_MoveTo = \<lparr>s_pbf = \<lparr>buf = unknown_bytes, pos = 4\<rparr>, s_cmd = 1, s_length = 0, s_x = 1, s_y = 1,
      s_lines = [], s_line = Some [Point 1 1]\<rparr>"

definition after_MoveTo_bbox :: "bbox_state" where
  "after_MoveTo_bbox = \<lparr>s_pbf = \<lparr>buf = unknown_bytes, pos = 4\<rparr>, s_cmd = 1, s_length = 0, s_x = 1, s_y = 1,
      s_x1 = Finite 1, s_x2 = Finite 1, s_y1 = Finite 1, s_y2 = Finite 1\<rparr>"

definition lineTo_first_bytes :: "8 word list" where
  "lineTo_first_bytes = [4, 15, 10, 2, 2]"

definition after_ClosePath :: lg_state where
  "after_ClosePath = \<lparr>s_pbf = \<lparr>buf = lineTo_first_bytes, pos = 2\<rparr>, s_cmd = 7, s_length = 0,
      s_x = 0, s_y = 0, s_lines = [], s_line = None\<rparr>"


section \<open>The ring classifier\<close>

text \<open>
  The loop of \<^verbatim>\<open>signedArea\<close>:
  \<^verbatim>\<open>for (var i = 0, len = ring.length, j = len - 1, p1, p2; i < len; j = i++)\<close>
  with body \<^verbatim>\<open>p1 = ring[i]; p2 = ring[j]; sum += (p2.x - p1.x) * (p1.y + p2.y)\<close>. Each
  of the four arithmetic operations rounds its result to a double. Both
  indices are in range whenever the body runs; \<open>sum_v\<close> is the source's variable \<^verbatim>\<open>sum\<close>.
\<close>

function signedArea_loop :: "Point list \<Rightarrow> nat \<Rightarrow> int \<Rightarrow> int \<Rightarrow> int" where
  "signedArea_loop ring i j sum_v =
     (if i < length ring then
        (let p1 = ring ! i; p2 = ring ! nat j
         in signedArea_loop ring (i + 1) (int i)
              (round_double
                 (sum_v + round_double (round_double (px p2 - px p1) * round_double (py p1 + py p2)))))
      else sum_v)"
  by pat_completeness auto
termination
  by (relation "measure (\<lambda>(ring, i, j, sum_v). length ring - i)") auto

declare signedArea_loop.simps [simp del]

definition signedArea :: "Point list \<Rightarrow> int" where
  "signedArea ring = signedArea_loop ring 0 (int (length ring) - 1) 0"

text \<open>
  The local variables of \<^verbatim>\<open>classifyRings\<close>: \<^verbatim>\<open>polygons\<close>, \<^verbatim>\<open>polygon\<close> and \<^verbatim>\<open>ccw\<close>, the
  last two \<^verbatim>\<open>undefined\<close> (\<open>None\<close>) until they are first assigned.
\<close>

record cr_state =
  c_polygons :: "Point list list list"
  c_polygon :: "Point list list option"
  c_ccw :: "bool option"

text \<open>
  The \<^verbatim>\<open>for\<close> loop of \<^verbatim>\<open>classifyRings\<close> over \<^verbatim>\<open>rings[i]\<close>, as a recursion over the rings
  still to visit. \<^verbatim>\<open>ccw === area < 0\<close> compares \<^verbatim>\<open>ccw\<close> with the boolean \<^verbatim>\<open>area < 0\<close>;
  \<^verbatim>\<open>polygon.push\<close> on an \<^verbatim>\<open>undefined\<close> polygon raises \<open>TypeError\<close>.
\<close>

fun classifyRings_loop :: "Point list list \<Rightarrow> cr_state \<Rightarrow> error + cr_state" where
  "classifyRings_loop [] s = Inr s"
| "classifyRings_loop (ring # rings) s =
     (let area = signedArea ring in
      if area = 0 then classifyRings_loop rings s
      else
        let ccw = (case c_ccw s of None \<Rightarrow> area < 0 | Some c \<Rightarrow> c) in
        if ccw = (area < 0) then
          classifyRings_loop rings
            \<lparr>c_polygons = (case c_polygon s of
                             Some polygon \<Rightarrow> c_polygons s @ [polygon]
                           | None \<Rightarrow> c_polygons s),
             c_polygon = Some [ring], c_ccw = Some ccw\<rparr>
        else
          (case c_polygon s of
             None \<Rightarrow> Inl TypeError
           | Some polygon \<Rightarrow>
               classifyRings_loop rings
                 \<lparr>c_polygons = c_polygons s, c_polygon = Some (polygon @ [ring]),
                  c_ccw = Some ccw\<rparr>))"

definition classifyRings_init :: cr_state where
  "classifyRings_init = \<lparr>c_polygons = [], c_polygon = None, c_ccw = None\<rparr>"

text \<open>\<^verbatim>\<open>if (polygon) polygons.push(polygon); return polygons;\<close>\<close>

definition classifyRings_result :: "cr_state \<Rightarrow> Point list list list" where
  "classifyRings_result s =
     (case c_polygon s of Some polygon \<Rightarrow> c_polygons s @ [polygon] | None \<Rightarrow> c_polygons s)"

definition classifyRings :: "Point list list \<Rightarrow> error + Point list list list" where
  "classifyRings rings =
     (if length rings \<le> 1 then Inr [rings]
      else (case classifyRings_loop rings classifyRings_init of
              Inl e \<Rightarrow> Inl e
            | Inr s \<Rightarrow> Inr (classifyRings_result s)))"

text \<open>
  The signed area as the spec words it: the sum of \<open>(p[j].x - p[i].x) * (p[i].y + p[j].y)\<close>
  over the index pairs \<open>(i, j)\<close> with \<open>j\<close> the index before \<open>i\<close>, wrapping around.
  \<open>shoelace_double\<close> is that sum taken in index order in double arithmetic, \<open>shoelace\<close>
  the same sum in exact arithmetic.
\<close>

definition shoelace_double :: "Point list \<Rightarrow> int" where
  "shoelace_double ring =
     foldl
       (\<lambda>total i.
          round_double
            (total +
             round_double
               (round_double (px (ring ! ((i + length ring - 1) mod length ring)) - px (ring ! i)) *
                round_double (py (ring ! i) + py (ring ! ((i + length ring - 1) mod length ring))))))
       0 [0..<length ring]"

definition shoelace :: "Point list \<Rightarrow> int" where
  "shoelace ring =
     (\<Sum>i<length ring.
        (px (ring ! ((i + length ring - 1) mod length ring)) - px (ring ! i)) *
        (py (ring ! i) + py (ring ! ((i + length ring - 1) mod length ring))))"

text \<open>
  A ring whose area is summed without rounding: its coordinates are below \<open>2 ^ 52\<close> in
  magnitude and the magnitudes of the terms of its shoelace sum add up to less than
  \<open>2 ^ 53\<close>.
\<close>

definition exact_area :: "Point list \<Rightarrow> bool" where
  "exact_area ring =
     ((\<forall>p \<in> set ring. \<bar>px p\<bar> < 2 ^ 52 \<and> \<bar>py p\<bar> < 2 ^ 52) \<and>
      (\<Sum>i<length ring.
         \<bar>px (ring ! ((i + length ring - 1) mod length ring)) - px (ring ! i)\<bar> *
         \<bar>py (ring ! i) + py (ring ! ((i + length ring - 1) mod length ring))\<bar>) < 2 ^ 53)"

text \<open>A ring is non-degenerate when its signed area is not zero.\<close>

definition non_degenerate :: "Point list \<Rightarrow> bool" where
  "non_degenerate ring = (signedArea ring \<noteq> 0)"

text \<open>
  Rings used to run the classifier: two squares of opposite winding, a ring of area
  zero, and a sliver with coordinates near \<open>2 ^ 28\<close> whose exact shoelace sum is \<open>-1\<close>
  and whose sum in double arithmetic is \<open>0\<close>.
\<close>

definition square :: "Point list" where
  "square = [Point 0 0, Point 4 0, Point 4 4, Point 0 4, Point 0 0]"

definition square_reversed :: "Point list" where
  "square_reversed = [Point 1 1, Point 1 2, Point 2 2, Point 2 1, Point 1 1]"

definition flat_ring :: "Point list" where
  "flat_ring = [Point 0 0, Point 3 3, Point 0 0]"

definition big_ring :: "Point list" where
  "big_ring = [Point 0 0, Point (2 ^ 28) (2 ^ 28 + 1), Point (2 ^ 28 + 1) (2 ^ 28 + 2), Point 0 0]"


section \<open>Coordinate projection\<close>

text \<open>
  JavaScript numbers are modelled as real numbers in this part: the arithmetic is exact
  and the rounding of double-precision floating point is not modelled.

  Modelled from the spec: the external bounds type \<^verbatim>\<open>LngLatBounds\<close>, a rectangle
  \<open>{west, south, east, north}\<close> in degrees read through \<^verbatim>\<open>getWest()\<close>, \<^verbatim>\<open>getSouth()\<close>,
  \<^verbatim>\<open>getEast()\<close> and \<^verbatim>\<open>getNorth()\<close>; \<^verbatim>\<open>LngLatBounds.convert\<close> returns such an object as it
  is. An optional \<^verbatim>\<open>bounds\<close> parameter is \<open>None\<close> when it is \<^verbatim>\<open>undefined\<close>.
\<close>

record LngLatBounds =
  getWest :: real
  getSouth :: real
  getEast :: real
  getNorth :: real

text \<open>
  Modelled from the spec: \<^verbatim>\<open>earthRadius\<close>, imported from a module that is not part of the
  sources; the spec gives the mean Earth radius as 6,371,008.8 m.
\<close>

definition earthRadius :: real where
  "earthRadius = 6371008.8"

definition earthCircumfrence :: real where
  "earthCircumfrence = 2 * pi * earthRadius"

definition circumferenceAtLatitude :: "real \<Rightarrow> real" where
  "circumferenceAtLatitude latitude = earthCircumfrence * cos (latitude * pi / 180)"

definition mercatorXfromLng :: "real \<Rightarrow> LngLatBounds option \<Rightarrow> real" where
  "mercatorXfromLng lng bounds =
     (case bounds of
        Some b \<Rightarrow> (lng - getWest b) / (getEast b - getWest b)
      | None \<Rightarrow> (180 + lng) / 360)"

definition mercatorYfromLat :: "real \<Rightarrow> LngLatBounds option \<Rightarrow> real" where
  "mercatorYfromLat lat bounds =
     (case bounds of
        Some b \<Rightarrow> (getNorth b - lat) / (getNorth b - getSouth b)
      | None \<Rightarrow> (180 - (180 / pi * ln (tan (pi / 4 + lat * pi / 360)))) / 360)"

definition mercatorZfromAltitude :: "real \<Rightarrow> real \<Rightarrow> LngLatBounds option \<Rightarrow> real" where
  "mercatorZfromAltitude altitude lat bounds =
     (case bounds of
        Some b \<Rightarrow> altitude / (getNorth b - lat)
      | None \<Rightarrow> altitude / circumferenceAtLatitude lat)"

definition lngFromMercatorX :: "real \<Rightarrow> LngLatBounds option \<Rightarrow> real" where
  "lngFromMercatorX x bounds =
     (case bounds of
        Some b \<Rightarrow> x * (getEast b - getWest b) + getWest b
      | None \<Rightarrow> x * 360 - 180)"

definition latFromMercatorY :: "real \<Rightarrow> LngLatBounds option \<Rightarrow> real" where
  "latFromMercatorY y bounds =
     (case bounds of
        Some b \<Rightarrow> getNorth b - y * (getNorth b - getSouth b)
      | None \<Rightarrow>
          (let y2 = 180 - y * 360
           in 360 / pi * arctan (exp (y2 * pi / 180)) - 90))"

definition altitudeFromMercatorZ :: "real \<Rightarrow> real \<Rightarrow> LngLatBounds option \<Rightarrow> real" where
  "altitudeFromMercatorZ z y bounds =
     (case bounds of
        Some b \<Rightarrow> z * (getNorth b - y)
      | None \<Rightarrow> z * circumferenceAtLatitude (latFromMercatorY y None))"

definition mercatorScale :: "real \<Rightarrow> real" where
  "mercatorScale lat = 1 / cos (lat * pi / 180)"

text \<open>The class \<^verbatim>\<open>MercatorCoordinate\<close> with its fields \<^verbatim>\<open>x\<close>, \<^verbatim>\<open>y\<close>, \<^verbatim>\<open>z\<close>.\<close>

record MercatorCoordinate =
  mc_x :: real
  mc_y :: real
  mc_z :: real

text \<open>
  \<^verbatim>\<open>MercatorCoordinate.fromLngLat\<close>, on the \<^verbatim>\<open>lng\<close> and \<^verbatim>\<open>lat\<close> of the converted
  \<^verbatim>\<open>LngLatLike\<close>.
\<close>

definition fromLngLat :: "real \<Rightarrow> real \<Rightarrow> real \<Rightarrow> LngLatBounds option \<Rightarrow> MercatorCoordinate" where
  "fromLngLat lng lat altitude bounds =
     \<lparr>mc_x = mercatorXfromLng lng bounds,
      mc_y = mercatorYfromLat lat bounds,
      mc_z = mercatorZfromAltitude altitude lat bounds\<rparr>"

definition toLngLat :: "MercatorCoordinate \<Rightarrow> LngLatBounds option \<Rightarrow> real \<times> real" where
  "toLngLat c bounds = (lngFromMercatorX (mc_x c) bounds, latFromMercatorY (mc_y c) bounds)"

definition toAltitude :: "MercatorCoordinate \<Rightarrow> LngLatBounds option \<Rightarrow> real" where
  "toAltitude c bounds = altitudeFromMercatorZ (mc_z c) (mc_y c) bounds"

definition meterInMercatorCoordinateUnits :: "MercatorCoordinate \<Rightarrow> LngLatBounds option \<Rightarrow> real" where
  "meterInMercatorCoordinateUnits c bounds =
     1 / earthCircumfrence * mercatorScale (latFromMercatorY (mc_y c) bounds)"

text \<open>A bounds rectangle used to run the projection: ten degrees on each side.\<close>

definition ten_degrees :: LngLatBounds where
  "ten_degrees = \<lparr>getWest = 0, getSouth = 0, getEast = 10, getNorth = 10\<rparr>"


section \<open>The feature serializer\<close>

text \<open>
  The values that end up under \<^verbatim>\<open>coordinates\<close>: a tile point that was not projected, a
  projected pair \<^verbatim>\<open>[a, b]\<close>, an array of such values, or \<^verbatim>\<open>undefined\<close>.
\<close>

datatype coords = CUndefined | CPoint Point | CPair real real | CArray "coords list"

text \<open>
  \<^verbatim>\<open>VectorTileFeature.types[this.type]\<close>: \<^verbatim>\<open>undefined\<close> beyond the four names; and the
  text a template literal \<^verbatim>\<open>${type}\<close> inserts.
\<close>

definition types :: "nat \<Rightarrow> string option" where
  "types t = (if t < 4 then Some ([''Unknown'', ''Point'', ''LineString'', ''Polygon''] ! t) else None)"

definition template_text :: "string option \<Rightarrow> string" where
  "template_text t = (case t of Some s \<Rightarrow> s | None \<Rightarrow> ''undefined'')"

text \<open>
  The loop \<^verbatim>\<open>for (j = 0; j < line.length; j++) line[j] = [...]\<close> of both projections, over
  an array whose elements are points or \<^verbatim>\<open>undefined\<close>: reading \<^verbatim>\<open>p.y\<close> of an
  \<^verbatim>\<open>undefined\<close> element raises \<open>TypeError\<close>. The result is what the array holds afterwards.
\<close>

fun project_points :: "(Point \<Rightarrow> real \<times> real) \<Rightarrow> Point option list \<Rightarrow> error + (real \<times> real) list" where
  "project_points g [] = Inr []"
| "project_points g (None # line) = Inl TypeError"
| "project_points g (Some p # line) =
     (case project_points g line of
        Inl e \<Rightarrow> Inl e
      | Inr pairs \<Rightarrow> Inr (g p # pairs))"

text \<open>\<^verbatim>\<open>mercatorProject\<close>, the inner function of \<^verbatim>\<open>toGeoJSON\<close>, with the variables it closes over
  (\<open>size_v\<close> is the source's \<^verbatim>\<open>size\<close>).\<close>

definition mercatorProject :: "real \<Rightarrow> real \<Rightarrow> real \<Rightarrow> Point option list \<Rightarrow> error + (real \<times> real) list" where
  "mercatorProject x0 y0 size_v line =
     project_points
       (\<lambda>p. let y2 = 180 - ((real_of_int (py p) + y0) * 360) / size_v
            in (((real_of_int (px p) + x0) * 360) / size_v - 180,
                (360 / pi) * arctan (exp ((y2 * pi) / 180)) - 90))
       line"

text \<open>
  The two kinds of value that reach the parameters of \<^verbatim>\<open>gaussProject\<close>: an array of points
  and a \<^verbatim>\<open>LngLatBounds\<close> object. \<^verbatim>\<open>gaussProject(line, bounds)\<close> reads \<^verbatim>\<open>line.length\<close>, which
  is \<^verbatim>\<open>undefined\<close> on a \<^verbatim>\<open>LngLatBounds\<close>, so that \<^verbatim>\<open>j < line.length\<close> is false and the body
  never runs; in the body it calls \<^verbatim>\<open>bounds.getEast()\<close>, a \<open>TypeError\<close> on an array. The
  result is what the loop has written into its first parameter: \<open>None\<close> when it wrote
  nothing.
\<close>

datatype js_value = JLine "Point option list" | JBounds LngLatBounds

fun gaussProject :: "real \<Rightarrow> real \<Rightarrow> real \<Rightarrow> js_value \<Rightarrow> js_value \<Rightarrow> error + (real \<times> real) list option" where
  "gaussProject x0 y0 size_v (JBounds l) bounds = Inr None"
| "gaussProject x0 y0 size_v (JLine []) bounds = Inr (Some [])"
| "gaussProject x0 y0 size_v (JLine (p # line)) (JLine l) = Inl TypeError"
| "gaussProject x0 y0 size_v (JLine (p # line)) (JBounds bounds) =
     (case project_points
             (\<lambda>p. let width = getEast bounds - getWest bounds;
                      height = getNorth bounds - getSouth bounds
                  in (((real_of_int (px p) + x0) / size_v) * width + getWest bounds,
                      getNorth bounds - ((real_of_int (py p) + y0) / size_v) * height))
             (p # line) of
        Inl e \<Rightarrow> Inl e
      | Inr pairs \<Rightarrow> Inr (Some pairs))"

text \<open>
  \<^verbatim>\<open>const project = bounds ? gaussProject.bind(null, bounds) : mercatorProject\<close>, applied to an
  array \<open>line\<close>. \<^verbatim>\<open>bind(null, bounds)\<close> fixes the first parameter of \<^verbatim>\<open>gaussProject\<close>, so the
  call \<^verbatim>\<open>project(line)\<close> is \<^verbatim>\<open>gaussProject(bounds, line)\<close>: the bounds object arrives as the
  parameter \<^verbatim>\<open>line\<close> and the array as the parameter \<^verbatim>\<open>bounds\<close>. \<^verbatim>\<open>gaussProject\<close> writes
  into its first parameter only, so the array is as it was after the call. The result is
  the content of the array after \<^verbatim>\<open>project(line)\<close>.
\<close>

definition unprojected :: "Point option \<Rightarrow> coords" where
  "unprojected p = (case p of Some q \<Rightarrow> CPoint q | None \<Rightarrow> CUndefined)"

definition project :: "LngLatBounds option \<Rightarrow> real \<Rightarrow> real \<Rightarrow> real \<Rightarrow> Point option list \<Rightarrow> error + coords list" where
  "project bounds x0 y0 size_v line =
     (case bounds of
        Some b \<Rightarrow>
          (case gaussProject x0 y0 size_v (JBounds b) (JLine line) of
             Inl e \<Rightarrow> Inl e
           | Inr written \<Rightarrow> Inr (map unprojected line))
      | None \<Rightarrow>
          (case mercatorProject x0 y0 size_v line of
             Inl e \<Rightarrow> Inl e
           | Inr pairs \<Rightarrow> Inr (map (\<lambda>(a, b). CPair a b) pairs)))"

text \<open>A \<^verbatim>\<open>for\<close> loop that calls \<open>g\<close> on each element in turn and stops at the first exception.\<close>

fun traverse :: "('a \<Rightarrow> error + 'b) \<Rightarrow> 'a list \<Rightarrow> error + 'b list" where
  "traverse g [] = Inr []"
| "traverse g (a # as) =
     (case g a of
        Inl e \<Rightarrow> Inl e
      | Inr b \<Rightarrow> (case traverse g as of Inl e \<Rightarrow> Inl e | Inr bs \<Rightarrow> Inr (b # bs)))"

text \<open>\<^verbatim>\<open>coords[i][0]\<close>: \<^verbatim>\<open>undefined\<close> on an empty ring.\<close>

definition first_point :: "Point list \<Rightarrow> Point option" where
  "first_point ring = (case ring of [] \<Rightarrow> None | p # rest \<Rightarrow> Some p)"

text \<open>\<^verbatim>\<open>project(ring)\<close> on a decoded ring, which then is an array of pairs.\<close>

definition project_ring :: "LngLatBounds option \<Rightarrow> real \<Rightarrow> real \<Rightarrow> real \<Rightarrow> Point list \<Rightarrow> error + coords" where
  "project_ring bounds x0 y0 size_v ring =
     (case project bounds x0 y0 size_v (map Some ring) of
        Inl e \<Rightarrow> Inl e
      | Inr cs \<Rightarrow> Inr (CArray cs))"

text \<open>
  The first half of \<^verbatim>\<open>toGeoJSON\<close>, down to the end of the \<^verbatim>\<open>switch\<close>: the value of
  \<^verbatim>\<open>coords\<close> there. The parameter \<^verbatim>\<open>bounds\<close> is a \<^verbatim>\<open>LngLatBounds\<close> object or absent:
  \<^verbatim>\<open>gaussProject\<close> calls \<^verbatim>\<open>getEast()\<close> on it without converting it first.
  \<^verbatim>\<open>Math.pow(2, z)\<close> is \<open>2 powr z\<close>. A type other than 1, 2 and 3
  matches no \<^verbatim>\<open>case\<close> and leaves the decoded rings as they are.
\<close>

definition project_geometry :: "Feature \<Rightarrow> real \<Rightarrow> real \<Rightarrow> real \<Rightarrow> LngLatBounds option \<Rightarrow> error + coords list" where
  "project_geometry f x y z bounds =
     (let size_v = f_extent f * 2 powr z;
          x0 = f_extent f * x;
          y0 = f_extent f * y
      in case loadGeometry f of
           Inl e \<Rightarrow> Inl e
         | Inr coords \<Rightarrow>
             if f_type f = 1 then project bounds x0 y0 size_v (map first_point coords)
             else if f_type f = 2 then traverse (project_ring bounds x0 y0 size_v) coords
             else if f_type f = 3 then
               (case classifyRings coords of
                  Inl e \<Rightarrow> Inl e
                | Inr polygons \<Rightarrow>
                    traverse
                      (\<lambda>polygon.
                         case traverse (project_ring bounds x0 y0 size_v) polygon of
                           Inl e \<Rightarrow> Inl e
                         | Inr rings \<Rightarrow> Inr (CArray rings))
                      polygons)
             else Inr (map (\<lambda>ring. CArray (map CPoint ring)) coords))"

text \<open>The record \<^verbatim>\<open>toGeoJSON\<close> returns.\<close>

record Geometry =
  g_type :: "string option"
  g_coordinates :: coords

record GeoJSON =
  r_type :: string
  r_geometry :: Geometry
  r_properties :: "(string \<times> prop_value) list"
  r_id :: "int option"

text \<open>
  \<^verbatim>\<open>VectorTileFeature.prototype.toGeoJSON\<close>: after the \<^verbatim>\<open>switch\<close>,
  \<^verbatim>\<open>if (coords.length === 1) coords = coords[0]; else type = `Multi${type}`\<close>, and the
  result is assembled; \<^verbatim>\<open>id\<close> is copied when the feature has one.
\<close>

definition toGeoJSON :: "Feature \<Rightarrow> real \<Rightarrow> real \<Rightarrow> real \<Rightarrow> LngLatBounds option \<Rightarrow> error + GeoJSON" where
  "toGeoJSON f x y z bounds =
     (case project_geometry f x y z bounds of
        Inl e \<Rightarrow> Inl e
      | Inr coords \<Rightarrow>
          Inr \<lparr>r_type = ''Feature'',
               r_geometry =
                 (if length coords = 1 then
                    \<lparr>g_type = types (f_type f), g_coordinates = coords ! 0\<rparr>
                  else
                    \<lparr>g_type = Some (''Multi'' @ template_text (types (f_type f))),
                     g_coordinates = CArray coords\<rparr>),
               r_properties = f_properties f,
               r_id = f_id f\<rparr>)"

text \<open>
  Features of each geometry type over a given geometry field; the field
  \<^verbatim>\<open>MoveTo(1,1)\<close> of a single point; and a field of two closed triangles of the same
  winding, \<^verbatim>\<open>MoveTo(0,0) LineTo(2,0) LineTo(0,2) ClosePath MoveTo(8,8) LineTo(2,0) LineTo(0,2) ClosePath\<close>
  in deltas.
\<close>

definition typed_feature :: "nat \<Rightarrow> 8 word list \<Rightarrow> Feature" where
  "typed_feature t bs = (feature_of bs)\<lparr>f_type := t\<rparr>"

definition one_point_bytes :: "8 word list" where
  "one_point_bytes = [3, 9, 2, 2]"

definition two_triangles_bytes :: "8 word list" where
  "two_triangles_bytes = [18, 9, 0, 0, 18, 4, 0, 0, 4, 15, 9, 16, 16, 18, 4, 0, 0, 4, 15]"


section \<open>The decoded path in absolute positions\<close>

text \<open>
  What a pass of either loop reads, taken from the reader alone: the command code the
  pass executes and, for \<^verbatim>\<open>MoveTo\<close> and \<^verbatim>\<open>LineTo\<close>, the two signed deltas that follow
  it (\<open>0\<close> and \<open>0\<close> for any other command).
\<close>

definition pass_command :: "'a cursor_scheme \<Rightarrow> int \<times> int \<times> int" where
  "pass_command s =
     (case read_command s of
        Inl e \<Rightarrow> (0, 0, 0)
      | Inr s1 \<Rightarrow>
          if s_cmd s1 = 1 \<or> s_cmd s1 = 2 then
            (case readSVarint (s_pbf s1) of
               Inl e \<Rightarrow> (s_cmd s1, 0, 0)
             | Inr (dx, p1) \<Rightarrow>
                 (case readSVarint p1 of
                    Inl e \<Rightarrow> (s_cmd s1, 0, 0)
                  | Inr (dy, p2) \<Rightarrow> (s_cmd s1, dx, dy)))
          else (s_cmd s1, 0, 0))"

text \<open>
  \<open>passes step cur endp s0 ss s\<close>: starting the loop \<^verbatim>\<open>while (pbf.pos < end)\<close> in state
  \<open>s0\<close>, the body has run \<open>length ss\<close> times without raising and has reached state \<open>s\<close>;
  \<open>ss\<close> lists the states in which the passes started, in order.
\<close>

inductive passes :: "('s \<Rightarrow> error + 's) \<Rightarrow> ('s \<Rightarrow> nat) \<Rightarrow> nat \<Rightarrow> 's \<Rightarrow> 's list \<Rightarrow> 's \<Rightarrow> bool"
  for step :: "'s \<Rightarrow> error + 's" and cur :: "'s \<Rightarrow> nat" and endp :: nat and s0 :: 's
where
  passes_start: "passes step cur endp s0 [] s0"
| passes_step: "passes step cur endp s0 ss s \<Longrightarrow> cur s < endp \<Longrightarrow> step s = Inr s' \<Longrightarrow>
     passes step cur endp s0 (ss @ [s]) s'"

code_pred passes .

definition lg_passes :: "nat \<Rightarrow> lg_state \<Rightarrow> lg_state list \<Rightarrow> lg_state \<Rightarrow> bool" where
  "lg_passes = passes loadGeometry_step (\<lambda>s. pos (s_pbf s))"

definition bbox_passes :: "nat \<Rightarrow> bbox_state \<Rightarrow> bbox_state list \<Rightarrow> bbox_state \<Rightarrow> bool" where
  "bbox_passes = passes bbox_step (\<lambda>s. pos (s_pbf s))"

text \<open>
  The spec's reading of a command sequence \<open>(command, dx, dy)\<close>. The position after a
  sequence is the running \<open>(x, y)\<close>, started at \<open>(0, 0)\<close>, to which every \<^verbatim>\<open>MoveTo\<close> and
  \<^verbatim>\<open>LineTo\<close> of the whole sequence has added its deltas (in JavaScript arithmetic); no
  command resets it. \<open>positions\<close> pairs each command with the position after it.
\<close>

fun advance :: "int \<times> int \<Rightarrow> int \<times> int \<times> int \<Rightarrow> int \<times> int" where
  "advance (x, y) (c, dx, dy) =
     (if c = 1 \<or> c = 2 then (round_double (x + dx), round_double (y + dy)) else (x, y))"

definition position_after :: "(int \<times> int \<times> int) list \<Rightarrow> int \<times> int" where
  "position_after tr = foldl advance (0, 0) tr"

definition positions :: "(int \<times> int \<times> int) list \<Rightarrow> (int \<times> Point) list" where
  "positions tr =
     map (\<lambda>k. (fst (tr ! k), Point (fst (position_after (take (Suc k) tr)))
                                 (snd (position_after (take (Suc k) tr)))))
       [0..<length tr]"

text \<open>
  The same position in exact arithmetic: the sums of all deltas of the \<^verbatim>\<open>MoveTo\<close> and
  \<^verbatim>\<open>LineTo\<close> commands.
\<close>

definition exact_position :: "(int \<times> int \<times> int) list \<Rightarrow> int \<times> int" where
  "exact_position tr =
     (sum_list (map (\<lambda>(c, dx, dy). if c = 1 \<or> c = 2 then dx else 0) tr),
      sum_list (map (\<lambda>(c, dx, dy). if c = 1 \<or> c = 2 then dy else 0) tr))"

text \<open>
  The spec's ring construction over commands with their positions: \<^verbatim>\<open>MoveTo\<close> stores the
  open ring, if there is one, and starts a new ring at its position; \<^verbatim>\<open>LineTo\<close> appends
  its position to the open ring; \<^verbatim>\<open>ClosePath\<close> appends a copy of the open ring's first
  point; after the last command the open ring is stored.
\<close>

fun build :: "Point list list \<times> Point list option \<Rightarrow> int \<times> Point \<Rightarrow> Point list list \<times> Point list option" where
  "build (rings, ring) (c, q) =
     (if c = 1 then ((case ring of Some l \<Rightarrow> rings @ [l] | None \<Rightarrow> rings), Some [q])
      else if c = 2 then (rings, map_option (\<lambda>l. l @ [q]) ring)
      else (rings, map_option (\<lambda>l. l @ [hd l]) ring))"

definition rings_of :: "(int \<times> Point) list \<Rightarrow> Point list list" where
  "rings_of ps =
     (case foldl build ([], None) ps of
        (rings, Some l) \<Rightarrow> rings @ [l]
      | (rings, None) \<Rightarrow> rings)"

text \<open>
  The spec's bounding box over commands with their positions: the running minima and
  maxima of the positions of the \<^verbatim>\<open>MoveTo\<close> and \<^verbatim>\<open>LineTo\<close> commands.
\<close>

fun track :: "extremum \<times> extremum \<times> extremum \<times> extremum \<Rightarrow> int \<times> Point \<Rightarrow>
    extremum \<times> extremum \<times> extremum \<times> extremum" where
  "track (x1, x2, y1, y2) (c, q) =
     (if c = 1 \<or> c = 2 then
        (if less_ext (px q) x1 then Finite (px q) else x1,
         if greater_ext (px q) x2 then Finite (px q) else x2,
         if less_ext (py q) y1 then Finite (py q) else y1,
         if greater_ext (py q) y2 then Finite (py q) else y2)
      else (x1, x2, y1, y2))"

definition box_of :: "(int \<times> Point) list \<Rightarrow> extremum list" where
  "box_of ps =
     (case foldl track (Infinity, MinusInfinity, Infinity, MinusInfinity) ps of
        (x1, x2, y1, y2) \<Rightarrow> [x1, y1, x2, y2])"

text \<open>The command sequence of \<open>two_rings_bytes\<close>.\<close>

definition two_rings_path :: "(int \<times> int \<times> int) list" where
  "two_rings_path = [(1, 1, 1), (2, 1, 0), (1, 2, 2)]"

text \<open>
  A line feature whose geometry field starts at offset 2 of its buffer and encodes
  \<^verbatim>\<open>MoveTo(2^53, 0) LineTo(1, 0)\<close>: the second addition is rounded.
\<close>

definition big_delta_feature :: Feature where
  "big_delta_feature =
     \<lparr>f_properties = [], f_extent = 4096, f_type = 2, f_id = None,
      f_pbf = \<lparr>buf = [255, 255, 13, 9, 128, 128, 128, 128, 128, 128, 128, 32, 0, 10, 2, 0], pos = 0\<rparr>,
      f_geometry = 2\<rparr>"


section \<open>Properties of the rounding\<close>

lemma bit_length_le: "n < 2 ^ k \<Longrightarrow> bit_length n \<le> k"
proof (induction k arbitrary: n)
  case 0
  then have "n = 0" by simp
  then show ?case by (subst bit_length.simps) simp
next
  case (Suc k)
  show ?case
  proof (cases "n = 0")
    case True
    then show ?thesis by (subst bit_length.simps) simp
  next
    case False
    from Suc.prems have "n div 2 < 2 ^ k" by simp
    then have "bit_length (n div 2) \<le> k" by (rule Suc.IH)
    with False show ?thesis by (subst bit_length.simps) simp
  qed
qed


lemma bit_length_eq: "2 ^ k \<le> n \<Longrightarrow> n < 2 ^ Suc k \<Longrightarrow> bit_length n = Suc k"
proof (induction k arbitrary: n)
  case 0
  then have "n = 1" by simp
  then show ?case by (simp add: bit_length.simps)
next
  case (Suc k)
  then have "2 ^ k \<le> n div 2" "n div 2 < 2 ^ Suc k" "n \<noteq> 0" by auto
  with Suc.IH [of "n div 2"] show ?case by (subst bit_length.simps) simp
qed

lemma round_double_exact: "\<bar>n\<bar> < 2 ^ 53 \<Longrightarrow> round_double n = n"
proof -
  assume "\<bar>n\<bar> < 2 ^ 53"
  then have "nat \<bar>n\<bar> < 2 ^ 53" by (simp add: nat_less_iff)
  then have "bit_length (nat \<bar>n\<bar>) \<le> 53" by (rule bit_length_le)
  then show ?thesis by (simp add: round_double_def Let_def)
qed

lemma round_double_at:
  assumes "2 ^ (52 + e) \<le> \<bar>n\<bar>" and "\<bar>n\<bar> < 2 ^ (53 + e)" and "0 < e"
  shows "round_double n =
     sgn n * int ((if 2 ^ e < 2 * (nat \<bar>n\<bar> mod 2 ^ e) \<or>
                      (2 * (nat \<bar>n\<bar> mod 2 ^ e) = 2 ^ e \<and> odd (nat \<bar>n\<bar> div 2 ^ e))
                   then nat \<bar>n\<bar> div 2 ^ e + 1 else nat \<bar>n\<bar> div 2 ^ e) * 2 ^ e)"
proof -
  from assms have "2 ^ (52 + e) \<le> nat \<bar>n\<bar>" "nat \<bar>n\<bar> < 2 ^ Suc (52 + e)"
    by (simp_all add: le_nat_iff nat_less_iff)
  then have "bit_length (nat \<bar>n\<bar>) = Suc (52 + e)" by (rule bit_length_eq)
  with assms(3) show ?thesis by (simp add: round_double_def Let_def)
qed


section \<open>Properties of the loops\<close>

lemma lg_run_start: "lg_run endp s0 [] s0"
  unfolding lg_run_def by (rule run_start)

lemma lg_run_step:
  "lg_run endp s0 cs s \<Longrightarrow> pos (s_pbf s) < endp \<Longrightarrow> loadGeometry_step s = Inr s' \<Longrightarrow>
     lg_run endp s0 (cs @ [s_cmd s']) s'"
  unfolding lg_run_def by (rule run_step)

lemma bbox_run_start: "bbox_run endp s0 [] s0"
  unfolding bbox_run_def by (rule run_start)

lemma bbox_run_step:
  "bbox_run endp s0 cs s \<Longrightarrow> pos (s_pbf s) < endp \<Longrightarrow> bbox_step s = Inr s' \<Longrightarrow>
     bbox_run endp s0 (cs @ [s_cmd s']) s'"
  unfolding bbox_run_def by (rule run_step)

lemma lg_run_loop:
  "lg_run endp s0 cs s \<Longrightarrow> loadGeometry_loop endp s0 = loadGeometry_loop endp s"
  unfolding lg_run_def
proof (induction rule: run.induct)
  case run_start
  show ?case by simp
next
  case (run_step cs s s')
  then show ?case by (simp add: loadGeometry_loop.simps [of endp s])
qed

lemma bbox_run_loop:
  "bbox_run endp s0 cs s \<Longrightarrow> bbox_loop endp s0 = bbox_loop endp s"
  unfolding bbox_run_def
proof (induction rule: run.induct)
  case run_start
  show ?case by simp
next
  case (run_step cs s s')
  then show ?case by (simp add: bbox_loop.simps [of endp s])
qed

lemma lg_loop_run:
  "loadGeometry_loop endp s = Inr t \<Longrightarrow> lg_run endp s0 cs s \<Longrightarrow>
     \<exists>cs'. lg_run endp s0 cs' t \<and> \<not> pos (s_pbf t) < endp"
proof (induction endp s arbitrary: cs rule: loadGeometry_loop.induct)
  case (1 endp s)
  show ?case
  proof (cases "pos (s_pbf s) < endp")
    case False
    with "1.prems" show ?thesis by (auto simp: loadGeometry_loop.simps [of endp s])
  next
    case True
    with "1.prems"(1) obtain s' where s': "loadGeometry_step s = Inr s'"
      and t: "loadGeometry_loop endp s' = Inr t"
      by (auto simp: loadGeometry_loop.simps [of endp s] split: sum.splits)
    from lg_run_step [OF "1.prems"(2) True s']
    have "lg_run endp s0 (cs @ [s_cmd s']) s'" .
    from "1.IH" [OF True s' t this] show ?thesis .
  qed
qed

lemma lg_unknown_aborts:
  assumes "pos (s_pbf s) < endp" and "read_command s = Inr s1" and "s_cmd s1 \<notin> {1, 2, 7}"
  shows "loadGeometry_loop endp s = Inl (UnknownCommand (s_cmd s1))"
  using assms by (simp add: loadGeometry_loop.simps [of endp s] loadGeometry_step_def)

lemma bbox_unknown_aborts:
  assumes "pos (s_pbf s) < endp" and "read_command s = Inr s1" and "s_cmd s1 \<notin> {1, 2, 7}"
  shows "bbox_loop endp s = Inl (UnknownCommand (s_cmd s1))"
  using assms by (simp add: bbox_loop.simps [of endp s] bbox_step_def)

lemma read_command_keeps_lg:
  fixes s :: lg_state
  assumes "read_command s = Inr s1"
  shows "s_x s1 = s_x s \<and> s_y s1 = s_y s \<and> s_lines s1 = s_lines s \<and> s_line s1 = s_line s"
  using assms by (auto simp: read_command_def split: if_splits sum.splits)

lemma read_command_keeps_bbox:
  fixes s :: bbox_state
  assumes "read_command s = Inr s1"
  shows "s_x s1 = s_x s \<and> s_y s1 = s_y s \<and> s_x1 s1 = s_x1 s \<and> s_x2 s1 = s_x2 s \<and>
         s_y1 s1 = s_y1 s \<and> s_y2 s1 = s_y2 s"
  using assms by (auto simp: read_command_def split: if_splits sum.splits)

lemma read_delta_adds:
  assumes "read_delta s = Inr s2"
  shows "\<exists>dx p1 dy p2. readSVarint (s_pbf s) = Inr (dx, p1) \<and> readSVarint p1 = Inr (dy, p2) \<and>
           s2 = s\<lparr>s_pbf := p2, s_x := round_double (s_x s + dx), s_y := round_double (s_y s + dy)\<rparr>"
  using assms by (auto simp: read_delta_def split: sum.splits)

lemma loadGeometry_step_cases:
  assumes "loadGeometry_step s = Inr s'"
  obtains
    (MoveTo) s1 s2 where "read_command s = Inr s1" "s_cmd s1 = 1" "read_delta s1 = Inr s2"
      "s' = s2\<lparr>s_lines := (case s_line s of Some l \<Rightarrow> s_lines s @ [l] | None \<Rightarrow> s_lines s),
                s_line := Some [Point (s_x s2) (s_y s2)]\<rparr>"
  | (LineTo) s1 s2 l where "read_command s = Inr s1" "s_cmd s1 = 2" "read_delta s1 = Inr s2"
      "s_line s = Some l" "s' = s2\<lparr>s_line := Some (l @ [Point (s_x s2) (s_y s2)])\<rparr>"
  | (ClosePath) s1 l q where "read_command s = Inr s1" "s_cmd s1 = 7" "s_line s = Some l"
      "l = q # tl l" "s' = s1\<lparr>s_line := Some (l @ [q])\<rparr>"
  | (ClosePathNoRing) s1 where "read_command s = Inr s1" "s_cmd s1 = 7" "s_line s = None" "s' = s1"
proof -
  from assms obtain s1 where s1: "read_command s = Inr s1"
    by (auto simp: loadGeometry_step_def split: sum.splits)
  note k = read_command_keeps_lg [OF s1]
  consider "s_cmd s1 = 1" | "s_cmd s1 = 2" | "s_cmd s1 = 7" | "s_cmd s1 \<notin> {1, 2, 7}" by auto
  then show thesis
  proof cases
    case 1
    with assms s1 obtain s2 where s2: "read_delta s1 = Inr s2"
      by (auto simp: loadGeometry_step_def split: sum.splits)
    from read_delta_adds [OF s2] obtain dx p1 dy p2 where
      e: "s2 = s1\<lparr>s_pbf := p2, s_x := round_double (s_x s1 + dx),
                    s_y := round_double (s_y s1 + dy)\<rparr>" by blast
    have "s' = s2\<lparr>s_lines := (case s_line s of Some l \<Rightarrow> s_lines s @ [l] | None \<Rightarrow> s_lines s),
                s_line := Some [Point (s_x s2) (s_y s2)]\<rparr>"
      using assms s1 s2 1 k unfolding e
      by (simp add: loadGeometry_step_def Let_def split: option.splits)
    with s1 1 s2 show ?thesis by (rule MoveTo)
  next
    case 2
    with assms s1 obtain s2 where s2: "read_delta s1 = Inr s2"
      by (auto simp: loadGeometry_step_def split: sum.splits)
    from read_delta_adds [OF s2] obtain dx p1 dy p2 where
      e: "s2 = s1\<lparr>s_pbf := p2, s_x := round_double (s_x s1 + dx),
                    s_y := round_double (s_y s1 + dy)\<rparr>" by blast
    from assms s1 s2 2 k obtain l where l: "s_line s = Some l"
      unfolding e by (auto simp: loadGeometry_step_def Let_def split: option.splits)
    have "s' = s2\<lparr>s_line := Some (l @ [Point (s_x s2) (s_y s2)])\<rparr>"
      using assms s1 s2 2 k l unfolding e
      by (simp add: loadGeometry_step_def Let_def split: option.splits)
    with s1 2 s2 l show ?thesis by (rule LineTo)
  next
    case 3
    show ?thesis
    proof (cases "s_line s")
      case None
      with assms s1 3 k have "s' = s1" by (simp add: loadGeometry_step_def)
      with s1 3 None show ?thesis by (rule ClosePathNoRing)
    next
      case (Some l)
      with assms s1 3 k obtain q where "l = q # tl l" "s' = s1\<lparr>s_line := Some (l @ [q])\<rparr>"
        by (auto simp: loadGeometry_step_def split: list.splits)
      with s1 3 Some show ?thesis by (rule ClosePath)
    qed
  next
    case 4
    with assms s1 show ?thesis by (auto simp: loadGeometry_step_def)
  qed
qed

lemma bbox_step_cases:
  assumes "bbox_step s = Inr s'"
  obtains
    (Coordinate) s1 s2 where "read_command s = Inr s1" "s_cmd s1 = 1 \<or> s_cmd s1 = 2"
      "read_delta s1 = Inr s2" "s_x s' = s_x s2" "s_y s' = s_y s2" "s_cmd s' = s_cmd s1"
  | (ClosePath) s1 where "read_command s = Inr s1" "s_cmd s1 = 7" "s' = s1"
proof -
  from assms obtain s1 where s1: "read_command s = Inr s1"
    by (auto simp: bbox_step_def split: sum.splits)
  show thesis
  proof (cases "s_cmd s1 = 1 \<or> s_cmd s1 = 2")
    case True
    with assms s1 obtain s2 where s2: "read_delta s1 = Inr s2"
      by (auto simp: bbox_step_def split: sum.splits)
    from read_delta_pos [OF s2] have "s_cmd s2 = s_cmd s1" by simp
    with assms s1 s2 True have "s_x s' = s_x s2" "s_y s' = s_y s2" "s_cmd s' = s_cmd s1"
      by (auto simp: bbox_step_def)
    with s1 True s2 show ?thesis by (rule Coordinate)
  next
    case False
    with assms s1 have "s_cmd s1 = 7 \<and> s' = s1"
      by (auto simp: bbox_step_def split: if_splits)
    with s1 show ?thesis by (auto intro: ClosePath)
  qed
qed

lemmas decode_defs =
  feature_of_def geometry_start_def loadGeometry_def loadGeometry_init_def loadGeometry_result_def
  loadGeometry_loop.simps loadGeometry_step_def bbox_def bbox_init_def bbox_loop.simps
  bbox_step_def read_command_def read_delta_def readVarint_def readSVarint_def toInt32_def
  drop_bit_eq_div round_double_exact

lemma lg_run_invariant:
  assumes "lg_run endp s0 cs s" and "s_line s0 = None"
  shows "(s_line s = None \<longleftrightarrow> 1 \<notin> set cs) \<and>
         (\<forall>i<length cs. cs ! i = 2 \<longrightarrow> 1 \<in> set (take i cs)) \<and> set cs \<subseteq> {1, 2, 7}"
  using assms unfolding lg_run_def
proof (induction rule: run.induct)
  case run_start
  then show ?case by simp
next
  case (run_step cs s s')
  then have IH: "s_line s = None \<longleftrightarrow> 1 \<notin> set cs"
    "\<forall>i<length cs. cs ! i = 2 \<longrightarrow> 1 \<in> set (take i cs)" "set cs \<subseteq> {1, 2, 7}"
    by simp_all
  have old: "\<forall>i<length cs. (cs @ [s_cmd s']) ! i = 2 \<longrightarrow> 1 \<in> set (take i (cs @ [s_cmd s']))"
    using IH(2) by (simp add: nth_append)
  from run_step.hyps(3) show ?case
  proof (cases rule: loadGeometry_step_cases)
    case (MoveTo s1 s2)
    from read_delta_pos [OF MoveTo(3)] MoveTo have c: "s_cmd s' = 1" "s_line s' \<noteq> None" by simp_all
    with old IH(3) show ?thesis by (auto simp: less_Suc_eq)
  next
    case (LineTo s1 s2 l)
    from read_delta_pos [OF LineTo(3)] LineTo have c: "s_cmd s' = 2" "s_line s' \<noteq> None" by simp_all
    from LineTo(4) IH(1) have "1 \<in> set cs" by auto
    with c old IH(3) show ?thesis by (auto simp: less_Suc_eq)
  next
    case (ClosePath s1 l q)
    then have c: "s_cmd s' = 7" "s_line s' \<noteq> None" "s_line s \<noteq> None" by simp_all
    with old IH show ?thesis by (auto simp: less_Suc_eq)
  next
    case (ClosePathNoRing s1)
    with read_command_keeps_lg [OF ClosePathNoRing(1)]
    have c: "s_cmd s' = 7" "s_line s' = None" "s_line s = None" by simp_all
    with old IH show ?thesis by (auto simp: less_Suc_eq)
  qed
qed

lemma lineTo_without_ring:
  assumes "s_line s = None" and "read_command s = Inr s1" and "s_cmd s1 = 2"
  shows "loadGeometry_step s = (case read_delta s1 of Inl e \<Rightarrow> Inl e | Inr s2 \<Rightarrow> Inl TypeError)"
proof (cases "read_delta s1")
  case (Inl e)
  with assms show ?thesis by (simp add: loadGeometry_step_def)
next
  case (Inr s2)
  from read_delta_adds [OF Inr] obtain dx p1 dy p2 where
    e: "s2 = s1\<lparr>s_pbf := p2, s_x := round_double (s_x s1 + dx),
                    s_y := round_double (s_y s1 + dy)\<rparr>" by blast
  from read_command_keeps_lg [OF assms(2)] assms(1) have "s_line s1 = None" by simp
  with assms Inr show ?thesis unfolding e by (simp add: loadGeometry_step_def Let_def)
qed

lemma read_delta_error:
  "read_delta s = Inl e \<Longrightarrow> e = MalformedBuffer"
  by (auto simp: read_delta_def readSVarint_def readVarint_def split: sum.splits option.splits)

section \<open>The decoders and the path in absolute positions\<close>

lemma pass_command_coordinate:
  assumes "read_command s = Inr s1" and "s_cmd s1 = 1 \<or> s_cmd s1 = 2"
    and "readSVarint (s_pbf s1) = Inr (dx, p1)" and "readSVarint p1 = Inr (dy, p2)"
  shows "pass_command s = (s_cmd s1, dx, dy)"
  using assms by (simp add: pass_command_def)

lemma pass_command_other:
  assumes "read_command s = Inr s1" and "s_cmd s1 = 7"
  shows "pass_command s = (7, 0, 0)"
  using assms by (simp add: pass_command_def)

lemma position_after_snoc:
  "position_after (tr @ [c]) = advance (position_after tr) c"
  by (simp add: position_after_def)

lemma positions_snoc:
  "positions (tr @ [c]) =
     positions tr @ [(fst c, Point (fst (position_after (tr @ [c]))) (snd (position_after (tr @ [c]))))]"
  by (simp add: positions_def nth_append)

lemma lg_passes_invariant:
  assumes "lg_passes endp (loadGeometry_init p) ss s"
  shows "(s_x s, s_y s) = position_after (map pass_command ss) \<and>
         (s_lines s, s_line s) = foldl build ([], None) (positions (map pass_command ss))"
  using assms unfolding lg_passes_def
proof (induction rule: passes.induct)
  case passes_start
  show ?case by (simp add: loadGeometry_init_def position_after_def positions_def)
next
  case (passes_step ss s s')
  let ?tr = "map pass_command ss"
  from passes_step.IH have xy: "position_after ?tr = (s_x s, s_y s)"
    and rg: "foldl build ([], None) (positions ?tr) = (s_lines s, s_line s)"
    by simp_all
  from passes_step.hyps(3) show ?case
  proof (cases rule: loadGeometry_step_cases)
    case (MoveTo s1 s2)
    from read_delta_adds [OF MoveTo(3)] obtain dx p1 dy p2 where
      r: "readSVarint (s_pbf s1) = Inr (dx, p1)" "readSVarint p1 = Inr (dy, p2)"
      and e: "s2 = s1\<lparr>s_pbf := p2, s_x := round_double (s_x s1 + dx),
                    s_y := round_double (s_y s1 + dy)\<rparr>" by blast
    from pass_command_coordinate [OF MoveTo(1) _ r] MoveTo(2)
    have c: "pass_command s = (1, dx, dy)" by simp
    from read_command_keeps_lg [OF MoveTo(1)] e
    have v: "s_x s2 = round_double (s_x s + dx)" "s_y s2 = round_double (s_y s + dy)" by simp_all
    show ?thesis
      by (simp add: positions_snoc position_after_snoc xy rg c v MoveTo(4))
  next
    case (LineTo s1 s2 l)
    from read_delta_adds [OF LineTo(3)] obtain dx p1 dy p2 where
      r: "readSVarint (s_pbf s1) = Inr (dx, p1)" "readSVarint p1 = Inr (dy, p2)"
      and e: "s2 = s1\<lparr>s_pbf := p2, s_x := round_double (s_x s1 + dx),
                    s_y := round_double (s_y s1 + dy)\<rparr>" by blast
    from pass_command_coordinate [OF LineTo(1) _ r] LineTo(2)
    have c: "pass_command s = (2, dx, dy)" by simp
    from read_command_keeps_lg [OF LineTo(1)] e
    have v: "s_x s2 = round_double (s_x s + dx)" "s_y s2 = round_double (s_y s + dy)"
      "s_lines s2 = s_lines s" by simp_all
    show ?thesis
      by (simp add: positions_snoc position_after_snoc xy rg c v LineTo(4,5))
  next
    case (ClosePath s1 l q)
    from pass_command_other [OF ClosePath(1,2)] have c: "pass_command s = (7, 0, 0)" .
    from ClosePath(4) have hd: "hd l = q" by (cases l) simp_all
    from read_command_keeps_lg [OF ClosePath(1)]
    show ?thesis
      by (simp add: positions_snoc position_after_snoc xy rg c ClosePath(3,5) hd)
  next
    case (ClosePathNoRing s1)
    from pass_command_other [OF ClosePathNoRing(1,2)] have c: "pass_command s = (7, 0, 0)" .
    from read_command_keeps_lg [OF ClosePathNoRing(1)]
    show ?thesis
      by (simp add: positions_snoc position_after_snoc xy rg c ClosePathNoRing(3,4))
  qed
qed


lemma bbox_step_coordinate:
  assumes "bbox_step s = Inr s'" and "read_command s = Inr s1" and "s_cmd s1 = 1 \<or> s_cmd s1 = 2"
  shows "\<exists>dx p1 dy p2.
           readSVarint (s_pbf s1) = Inr (dx, p1) \<and> readSVarint p1 = Inr (dy, p2) \<and>
           s_x s' = round_double (s_x s + dx) \<and> s_y s' = round_double (s_y s + dy) \<and>
           s_x1 s' = (if less_ext (s_x s') (s_x1 s) then Finite (s_x s') else s_x1 s) \<and>
           s_x2 s' = (if greater_ext (s_x s') (s_x2 s) then Finite (s_x s') else s_x2 s) \<and>
           s_y1 s' = (if less_ext (s_y s') (s_y1 s) then Finite (s_y s') else s_y1 s) \<and>
           s_y2 s' = (if greater_ext (s_y s') (s_y2 s) then Finite (s_y s') else s_y2 s)"
proof -
  from assms obtain s2 where s2: "read_delta s1 = Inr s2"
    by (auto simp: bbox_step_def split: sum.splits)
  from read_delta_adds [OF s2] obtain dx p1 dy p2 where
    r: "readSVarint (s_pbf s1) = Inr (dx, p1)" "readSVarint p1 = Inr (dy, p2)"
    and e: "s2 = s1\<lparr>s_pbf := p2, s_x := round_double (s_x s1 + dx),
                  s_y := round_double (s_y s1 + dy)\<rparr>" by blast
  from assms s2 have s': "s' = s2\<lparr>s_x1 := (if less_ext (s_x s2) (s_x1 s2) then Finite (s_x s2) else s_x1 s2),
                         s_x2 := (if greater_ext (s_x s2) (s_x2 s2) then Finite (s_x s2) else s_x2 s2),
                         s_y1 := (if less_ext (s_y s2) (s_y1 s2) then Finite (s_y s2) else s_y1 s2),
                         s_y2 := (if greater_ext (s_y s2) (s_y2 s2) then Finite (s_y s2) else s_y2 s2)\<rparr>"
    using read_delta_pos [OF s2] by (auto simp: bbox_step_def)
  note k = read_command_keeps_bbox [OF assms(2)]
  show ?thesis
    apply (rule exI [of _ dx], rule exI [of _ p1], rule exI [of _ dy], rule exI [of _ p2])
    using r k unfolding s' e by simp
qed

lemma bbox_passes_invariant:
  assumes "bbox_passes endp (bbox_init p) ss s"
  shows "(s_x s, s_y s) = position_after (map pass_command ss) \<and>
         (s_x1 s, s_x2 s, s_y1 s, s_y2 s) =
           foldl track (Infinity, MinusInfinity, Infinity, MinusInfinity)
             (positions (map pass_command ss))"
  using assms unfolding bbox_passes_def
proof (induction rule: passes.induct)
  case passes_start
  show ?case by (simp add: bbox_init_def position_after_def positions_def)
next
  case (passes_step ss s s')
  let ?tr = "map pass_command ss"
  from passes_step.IH have xy: "position_after ?tr = (s_x s, s_y s)"
    and bx: "foldl track (Infinity, MinusInfinity, Infinity, MinusInfinity) (positions ?tr) =
      (s_x1 s, s_x2 s, s_y1 s, s_y2 s)"
    by simp_all
  from passes_step.hyps(3) show ?case
  proof (cases rule: bbox_step_cases)
    case (Coordinate s1 s2)
    from bbox_step_coordinate [OF passes_step.hyps(3) Coordinate(1,2)] obtain dx p1 dy p2 where
      r: "readSVarint (s_pbf s1) = Inr (dx, p1)" "readSVarint p1 = Inr (dy, p2)"
      and v: "s_x s' = round_double (s_x s + dx)" "s_y s' = round_double (s_y s + dy)"
      and b: "s_x1 s' = (if less_ext (s_x s') (s_x1 s) then Finite (s_x s') else s_x1 s)"
        "s_x2 s' = (if greater_ext (s_x s') (s_x2 s) then Finite (s_x s') else s_x2 s)"
        "s_y1 s' = (if less_ext (s_y s') (s_y1 s) then Finite (s_y s') else s_y1 s)"
        "s_y2 s' = (if greater_ext (s_y s') (s_y2 s) then Finite (s_y s') else s_y2 s)"
      by blast
    from pass_command_coordinate [OF Coordinate(1,2) r]
    have c: "pass_command s = (s_cmd s1, dx, dy)" .
    from Coordinate(2) show ?thesis
      by (simp add: positions_snoc position_after_snoc xy bx c b) (simp add: v)
  next
    case (ClosePath s1)
    from pass_command_other [OF ClosePath(1,2)] have c: "pass_command s = (7, 0, 0)" .
    from read_command_keeps_bbox [OF ClosePath(1)]
    show ?thesis
      by (simp add: positions_snoc position_after_snoc xy bx c ClosePath(3))
  qed
qed

lemma passes_prefix:
  assumes "passes step cur endp s0 ss s" and "k \<le> length ss"
  shows "passes step cur endp s0 (take k ss) ((ss @ [s]) ! k)"
  using assms
proof (induction arbitrary: k rule: passes.induct)
  case passes_start
  then show ?case by (simp add: passes.passes_start)
next
  case (passes_step ss s s')
  show ?case
  proof (cases "k \<le> length ss")
    case True
    with passes_step.IH [OF True] show ?thesis
      by (cases "k < length ss") (auto simp: nth_append)
  next
    case False
    with passes_step.prems have "k = Suc (length ss)" by simp
    with passes.passes_step [OF passes_step.hyps] show ?thesis by (simp add: nth_append)
  qed
qed

lemma lg_loop_passes:
  "loadGeometry_loop endp s = Inr t \<Longrightarrow> lg_passes endp s0 ss s \<Longrightarrow>
     \<exists>ss'. lg_passes endp s0 ss' t \<and> \<not> pos (s_pbf t) < endp"
proof (induction endp s arbitrary: ss rule: loadGeometry_loop.induct)
  case (1 endp s)
  show ?case
  proof (cases "pos (s_pbf s) < endp")
    case False
    with "1.prems" show ?thesis by (auto simp: loadGeometry_loop.simps [of endp s])
  next
    case True
    with "1.prems"(1) obtain s' where s': "loadGeometry_step s = Inr s'"
      and t: "loadGeometry_loop endp s' = Inr t"
      by (auto simp: loadGeometry_loop.simps [of endp s] split: sum.splits)
    from "1.prems"(2) True s' have "lg_passes endp s0 (ss @ [s]) s'"
      unfolding lg_passes_def by (rule passes_step)
    from "1.IH" [OF True s' t this] show ?thesis .
  qed
qed

lemma bbox_loop_passes:
  "bbox_loop endp s = Inr t \<Longrightarrow> bbox_passes endp s0 ss s \<Longrightarrow>
     \<exists>ss'. bbox_passes endp s0 ss' t \<and> \<not> pos (s_pbf t) < endp"
proof (induction endp s arbitrary: ss rule: bbox_loop.induct)
  case (1 endp s)
  show ?case
  proof (cases "pos (s_pbf s) < endp")
    case False
    with "1.prems" show ?thesis by (auto simp: bbox_loop.simps [of endp s])
  next
    case True
    with "1.prems"(1) obtain s' where s': "bbox_step s = Inr s'"
      and t: "bbox_loop endp s' = Inr t"
      by (auto simp: bbox_loop.simps [of endp s] split: sum.splits)
    from "1.prems"(2) True s' have "bbox_passes endp s0 (ss @ [s]) s'"
      unfolding bbox_passes_def by (rule passes_step)
    from "1.IH" [OF True s' t this] show ?thesis .
  qed
qed

lemma position_after_exact:
  assumes "\<forall>k\<le>length tr. \<bar>fst (exact_position (take k tr))\<bar> < 2 ^ 53 \<and>
                          \<bar>snd (exact_position (take k tr))\<bar> < 2 ^ 53"
  shows "position_after tr = exact_position tr"
  using assms
proof (induction tr rule: rev_induct)
  case Nil
  show ?case by (simp add: position_after_def exact_position_def)
next
  case (snoc c tr)
  have "\<forall>k\<le>length tr. \<bar>fst (exact_position (take k tr))\<bar> < 2 ^ 53 \<and>
                        \<bar>snd (exact_position (take k tr))\<bar> < 2 ^ 53"
  proof (intro allI impI)
    fix k assume "k \<le> length tr"
    with snoc.prems [rule_format, of k] show "\<bar>fst (exact_position (take k tr))\<bar> < 2 ^ 53 \<and>
                        \<bar>snd (exact_position (take k tr))\<bar> < 2 ^ 53" by simp
  qed
  then have IH: "position_after tr = exact_position tr" by (rule snoc.IH)
  from snoc.prems [rule_format, of "Suc (length tr)"]
  have b: "\<bar>fst (exact_position (tr @ [c]))\<bar> < 2 ^ 53" "\<bar>snd (exact_position (tr @ [c]))\<bar> < 2 ^ 53"
    by simp_all
  obtain cmd dx dy where c: "c = (cmd, dx, dy)" by (cases c)
  show ?case
  proof (cases "cmd = 1 \<or> cmd = 2")
    case True
    with b c have "\<bar>fst (exact_position tr) + dx\<bar> < 2 ^ 53" "\<bar>snd (exact_position tr) + dy\<bar> < 2 ^ 53"
      by (auto simp: exact_position_def)
    then have "round_double (fst (exact_position tr) + dx) = fst (exact_position tr) + dx"
      "round_double (snd (exact_position tr) + dy) = snd (exact_position tr) + dy"
      by (simp_all add: round_double_exact)
    with True c IH show ?thesis
      by (cases "exact_position tr") (auto simp: position_after_snoc exact_position_def)
  next
    case False
    with c IH show ?thesis
      by (cases "exact_position tr") (auto simp: position_after_snoc exact_position_def)
  qed
qed


lemma two_rings_path_values:
  "positions two_rings_path = [(1, Point 1 1), (2, Point 2 1), (1, Point 4 3)]"
  "rings_of (positions two_rings_path) = [[Point 1 1, Point 2 1], [Point 4 3]]"
  "box_of (positions two_rings_path) = [Finite 1, Finite 1, Finite 4, Finite 3]"
  "exact_position two_rings_path = (4, 3)"
proof -
  have three: "[0..<3] = [0, 1, 2]" by (simp add: upt_rec)
  show p: "positions two_rings_path = [(1, Point 1 1), (2, Point 2 1), (1, Point 4 3)]"
    by (simp add: positions_def two_rings_path_def three position_after_def round_double_exact
        numeral_3_eq_3)
  show "rings_of (positions two_rings_path) = [[Point 1 1, Point 2 1], [Point 4 3]]"
    by (simp add: p rings_of_def)
  show "box_of (positions two_rings_path) = [Finite 1, Finite 1, Finite 4, Finite 3]"
    by (simp add: p box_of_def)
  show "exact_position two_rings_path = (4, 3)"
    by (simp add: exact_position_def two_rings_path_def)
qed


lemma big_delta_decode:
  "loadGeometry big_delta_feature = Inr [[Point (2 ^ 53) 0, Point (2 ^ 53) 0]]"
  "bbox big_delta_feature = Inr [Finite (2 ^ 53), Finite 0, Finite (2 ^ 53), Finite 0]"
proof -
  have r: "round_double 18014398509481984 = 18014398509481984"
    "round_double 9007199254740992 = 9007199254740992"
    "round_double 9007199254740993 = 9007199254740992"
    using round_double_at [of 2 18014398509481984] round_double_at [of 1 9007199254740992]
      round_double_at [of 1 9007199254740993]
    by simp_all
  show "loadGeometry big_delta_feature = Inr [[Point (2 ^ 53) 0, Point (2 ^ 53) 0]]"
    by (simp add: big_delta_feature_def decode_defs r)
  show "bbox big_delta_feature = Inr [Finite (2 ^ 53), Finite 0, Finite (2 ^ 53), Finite 0]"
    by (simp add: big_delta_feature_def decode_defs r)
qed


section \<open>Properties of the ring classifier\<close>

lemma signedArea_loop_unfold:
  "signedArea_loop ring i j acc =
     (if i < length ring then
        signedArea_loop ring (i + 1) (int i)
          (round_double
             (acc + round_double (round_double (px (ring ! nat j) - px (ring ! i)) *
                                  round_double (py (ring ! i) + py (ring ! nat j)))))
      else acc)"
  by (subst signedArea_loop.simps) (simp add: Let_def)

lemma signedArea_loop_fold:
  assumes "i \<le> length ring" and "j = (if i = 0 then int (length ring) - 1 else int i - 1)"
  shows "signedArea_loop ring i j acc =
     foldl
       (\<lambda>total i.
          round_double
            (total +
             round_double
               (round_double (px (ring ! ((i + length ring - 1) mod length ring)) - px (ring ! i)) *
                round_double (py (ring ! i) + py (ring ! ((i + length ring - 1) mod length ring))))))
       acc [i..<length ring]"
  using assms
proof (induction ring i j acc rule: signedArea_loop.induct)
  case (1 ring i j acc)
  show ?case
  proof (cases "i < length ring")
    case False
    then have "signedArea_loop ring i j acc = acc"
      by (subst signedArea_loop_unfold) simp
    with False show ?thesis by simp
  next
    case True
    have idx: "nat j = (i + length ring - 1) mod length ring"
    proof (cases "i = 0")
      case True
      with \<open>i < length ring\<close> "1.prems"(2) show ?thesis by (simp add: nat_diff_distrib')
    next
      case False
      then have e: "i + length ring - 1 = (i - 1) + length ring" by simp
      from \<open>i < length ring\<close> have "((i - 1) + length ring) mod length ring = i - 1"
        by simp
      then have "(i + length ring - 1) mod length ring = i - 1"
        by (simp only: e)
      with False "1.prems"(2) show ?thesis by (simp add: nat_diff_distrib')
    qed
    let ?acc = "round_double
             (acc + round_double (round_double (px (ring ! nat j) - px (ring ! i)) *
                                  round_double (py (ring ! i) + py (ring ! nat j))))"
    have step: "signedArea_loop ring i j acc = signedArea_loop ring (i + 1) (int i) ?acc"
      using True by (subst signedArea_loop_unfold) simp
    have "signedArea_loop ring (i + 1) (int i) ?acc =
          foldl
            (\<lambda>total i.
               round_double
                 (total +
                  round_double
                    (round_double (px (ring ! ((i + length ring - 1) mod length ring)) - px (ring ! i)) *
                     round_double (py (ring ! i) + py (ring ! ((i + length ring - 1) mod length ring))))))
            ?acc [i + 1..<length ring]"
      using True by (intro "1.IH" [OF True refl refl]) auto
    moreover have "[i..<length ring] = i # [i + 1..<length ring]"
      using True by (simp add: upt_conv_Cons)
    ultimately show ?thesis unfolding step by (simp add: idx)
  qed
qed

lemma signedArea_shoelace_double: "signedArea ring = shoelace_double ring"
  using signedArea_loop_fold [of 0 ring "int (length ring) - 1" 0]
  by (simp add: signedArea_def shoelace_double_def)


lemma shoelace_double_exact:
  assumes "exact_area ring"
  shows "shoelace_double ring = shoelace ring"
proof -
  let ?n = "length ring"
  let ?j = "\<lambda>i. (i + ?n - 1) mod ?n"
  let ?t = "\<lambda>i. (px (ring ! ?j i) - px (ring ! i)) * (py (ring ! i) + py (ring ! ?j i))"
  let ?a = "\<lambda>i. \<bar>px (ring ! ?j i) - px (ring ! i)\<bar> * \<bar>py (ring ! i) + py (ring ! ?j i)\<bar>"
  let ?f = "\<lambda>total i.
          round_double
            (total +
             round_double
               (round_double (px (ring ! ?j i) - px (ring ! i)) *
                round_double (py (ring ! i) + py (ring ! ?j i))))"
  from assms have coord: "\<And>p. p \<in> set ring \<Longrightarrow> \<bar>px p\<bar> < 2 ^ 52 \<and> \<bar>py p\<bar> < 2 ^ 52"
    and total: "(\<Sum>i<?n. ?a i) < 2 ^ 53"
    by (auto simp: exact_area_def)
  have part: "(\<Sum>i<k. ?a i) < 2 ^ 53" if "k \<le> ?n" for k
  proof -
    have "(\<Sum>i<k. ?a i) \<le> (\<Sum>i<?n. ?a i)"
      using that by (intro sum_mono2) auto
    with total show ?thesis by simp
  qed
  have "foldl ?f 0 [0..<k] = (\<Sum>i<k. ?t i)" if "k \<le> ?n" for k
    using that
  proof (induction k)
    case 0
    show ?case by simp
  next
    case (Suc k)
    then have k: "k < ?n" and IH: "foldl ?f 0 [0..<k] = (\<Sum>i<k. ?t i)" by simp_all
    from k have "0 < ?n" by (cases ring) simp_all
    then have "?j k < ?n" by (rule mod_less_divisor)
    with k have "ring ! k \<in> set ring" "ring ! ?j k \<in> set ring" by simp_all
    with coord have
      "\<bar>px (ring ! k)\<bar> < 2 ^ 52" "\<bar>px (ring ! ?j k)\<bar> < 2 ^ 52"
      "\<bar>py (ring ! k)\<bar> < 2 ^ 52" "\<bar>py (ring ! ?j k)\<bar> < 2 ^ 52"
      by blast+
    then have "\<bar>px (ring ! ?j k) - px (ring ! k)\<bar> < 2 ^ 53" "\<bar>py (ring ! k) + py (ring ! ?j k)\<bar> < 2 ^ 53"
      by simp_all
    then have d: "round_double (px (ring ! ?j k) - px (ring ! k)) = px (ring ! ?j k) - px (ring ! k)"
      and e: "round_double (py (ring ! k) + py (ring ! ?j k)) = py (ring ! k) + py (ring ! ?j k)"
      by (simp_all add: round_double_exact)
    have bound: "(\<Sum>i<Suc k. ?a i) < 2 ^ 53" using k by (intro part) simp
    have "\<bar>?t k\<bar> = ?a k" by (simp add: abs_mult)
    also have "?a k \<le> (\<Sum>i<Suc k. ?a i)" by (simp add: sum_nonneg)
    finally have "\<bar>?t k\<bar> < 2 ^ 53" using bound by simp
    then have t: "round_double (?t k) = ?t k" by (rule round_double_exact)
    have "\<bar>\<Sum>i<Suc k. ?t i\<bar> \<le> (\<Sum>i<Suc k. \<bar>?t i\<bar>)" by (rule sum_abs)
    also have "(\<Sum>i<Suc k. \<bar>?t i\<bar>) = (\<Sum>i<Suc k. ?a i)" by (simp add: abs_mult)
    finally have "\<bar>\<Sum>i<Suc k. ?t i\<bar> < 2 ^ 53" using bound by simp
    then have s: "round_double (\<Sum>i<Suc k. ?t i) = (\<Sum>i<Suc k. ?t i)" by (rule round_double_exact)
    have "foldl ?f 0 [0..<Suc k] = ?f (foldl ?f 0 [0..<k]) k" by simp
    also have "\<dots> = round_double ((\<Sum>i<k. ?t i) + ?t k)"
      unfolding IH d e t ..
    also have "\<dots> = (\<Sum>i<Suc k. ?t i)" using s by simp
    finally show ?case .
  qed
  from this [of ?n] show ?thesis by (simp add: shoelace_double_def shoelace_def)
qed

lemma big_ring_area: "signedArea big_ring = 0" "shoelace big_ring = - 1"
proof -
  have r: "round_double (- 72057594306363392) = - 72057594306363392"
    "round_double (- 72057594843234304) = - 72057594843234304"
    "round_double (- 72057594843234307) = - 72057594843234304"
    "round_double 72057594843234306 = 72057594843234304"
    using round_double_at [of 4 "- 72057594306363392"] round_double_at [of 4 "- 72057594843234304"]
      round_double_at [of 4 "- 72057594843234307"] round_double_at [of 4 "72057594843234306"]
    by simp_all
  show "signedArea big_ring = 0"
    by (simp add: big_ring_def signedArea_def signedArea_loop_unfold round_double_exact r)
  have four: "{..<4::nat} = {0, 1, 2, 3}" by auto
  show "shoelace big_ring = - 1"
    by (simp add: big_ring_def shoelace_def four)
qed


lemma classifyRings_loop_skips:
  "classifyRings_loop rings s = classifyRings_loop (filter non_degenerate rings) s"
  by (induction rings arbitrary: s) (simp_all add: non_degenerate_def Let_def split: option.splits)

lemma classifyRings_loop_total:
  assumes "c_ccw s \<noteq> None \<longrightarrow> c_polygon s \<noteq> None"
  shows "\<exists>s'. classifyRings_loop rings s = Inr s' \<and> (c_ccw s' \<noteq> None \<longrightarrow> c_polygon s' \<noteq> None)"
  using assms
proof (induction rings arbitrary: s)
  case Nil
  then show ?case by simp
next
  case (Cons ring rings)
  show ?case
  proof (cases "signedArea ring = 0")
    case True
    with Cons show ?thesis by simp
  next
    case False
    show ?thesis
    proof (cases "c_ccw s")
      case None
      with False Cons.IH [of "\<lparr>c_polygons = (case c_polygon s of Some polygon \<Rightarrow> c_polygons s @ [polygon]
                           | None \<Rightarrow> c_polygons s), c_polygon = Some [ring], c_ccw = Some (signedArea ring < 0)\<rparr>"]
      show ?thesis by simp
    next
      case (Some c)
      with Cons.prems obtain pg where pg: "c_polygon s = Some pg" by auto
      show ?thesis
      proof (cases "c = (signedArea ring < 0)")
        case True
        with False Some Cons.IH [of "\<lparr>c_polygons = c_polygons s @ [pg], c_polygon = Some [ring], c_ccw = Some c\<rparr>"] pg
        show ?thesis by simp
      next
        case neq: False
        with False Some Cons.IH [of "\<lparr>c_polygons = c_polygons s, c_polygon = Some (pg @ [ring]), c_ccw = Some c\<rparr>"] pg
        show ?thesis by simp
      qed
    qed
  qed
qed


lemma signedArea_examples:
  "signedArea square = 32" "signedArea square_reversed = - 2" "signedArea flat_ring = 0"
  by (simp_all add: square_def square_reversed_def flat_ring_def signedArea_def
      signedArea_loop_unfold round_double_exact)

section \<open>Properties of the projection\<close>

lemma latitude_round_trip:
  assumes "- 90 < lat" and "lat < 90"
  shows "latFromMercatorY (mercatorYfromLat lat None) None = lat"
proof -
  let ?t = "pi / 4 + lat * pi / 360"
  have lo: "0 < ?t"
  proof -
    have "(- 90) * pi < lat * pi" using assms by (intro mult_strict_right_mono) simp_all
    then show ?thesis by (simp add: field_simps)
  qed
  have hi: "?t < pi / 2"
  proof -
    have "lat * pi < 90 * pi" using assms by (intro mult_strict_right_mono) simp_all
    then show ?thesis by (simp add: field_simps)
  qed
  have pos: "0 < tan ?t" using lo hi by (rule tan_gt_zero)
  have "(180 - (180 - (180 / pi * L)) / 360 * 360) * pi / 180 = L" for L :: real
    by (simp add: field_simps)
  then have y2: "(180 - (180 - (180 / pi * ln (tan ?t))) / 360 * 360) * pi / 180 = ln (tan ?t)" .
  have "- (pi / 2) < ?t" using lo pi_gt_zero by linarith
  then have "arctan (tan ?t) = ?t" using hi by (rule arctan_tan)
  with pos have "arctan (exp (ln (tan ?t))) = ?t" by simp
  then have "360 / pi * arctan (exp (ln (tan ?t))) - 90 = lat"
    by (simp add: field_simps)
  then show ?thesis
    unfolding latFromMercatorY_def mercatorYfromLat_def Let_def option.case y2 .
qed

lemma longitude_round_trip: "lngFromMercatorX (mercatorXfromLng lng None) None = lng"
  by (simp add: lngFromMercatorX_def mercatorXfromLng_def field_simps)

lemma bounds_longitude_round_trip:
  assumes "getWest b < getEast b"
  shows "lngFromMercatorX (mercatorXfromLng lng (Some b)) (Some b) = lng"
  using assms by (simp add: lngFromMercatorX_def mercatorXfromLng_def)

lemma bounds_latitude_round_trip:
  assumes "getSouth b < getNorth b"
  shows "latFromMercatorY (mercatorYfromLat lat (Some b)) (Some b) = lat"
  using assms by (simp add: latFromMercatorY_def mercatorYfromLat_def)

lemma altitude_round_trip_default:
  assumes "- 90 < lat" and "lat < 90"
  shows "altitudeFromMercatorZ (mercatorZfromAltitude altitude lat None)
           (mercatorYfromLat lat None) None = altitude"
proof -
  have "- (pi / 2) < lat * pi / 180"
  proof -
    have "(- 90) * pi < lat * pi" using assms by (intro mult_strict_right_mono) simp_all
    then show ?thesis by (simp add: field_simps)
  qed
  moreover have "lat * pi / 180 < pi / 2"
  proof -
    have "lat * pi < 90 * pi" using assms by (intro mult_strict_right_mono) simp_all
    then show ?thesis by (simp add: field_simps)
  qed
  ultimately have "0 < cos (lat * pi / 180)" by (rule cos_gt_zero_pi)
  then have "circumferenceAtLatitude lat \<noteq> 0"
    by (simp add: circumferenceAtLatitude_def earthCircumfrence_def earthRadius_def)
  then show ?thesis
    by (simp add: altitudeFromMercatorZ_def mercatorZfromAltitude_def latitude_round_trip [OF assms])
qed

section \<open>Properties of the serializer\<close>

lemma project_points_Some: "project_points g (map Some ring) = Inr (map g ring)"
  by (induction ring) simp_all

lemma mercatorProject_composes_inverses:
  "mercatorProject x0 y0 size_v (map Some ring) =
     Inr (map (\<lambda>p. (lngFromMercatorX ((x0 + real_of_int (px p)) / size_v) None,
                     latFromMercatorY ((y0 + real_of_int (py p)) / size_v) None)) ring)"
  by (simp add: mercatorProject_def project_points_Some lngFromMercatorX_def latFromMercatorY_def
      Let_def add.commute)

lemma gaussProject_composes_inverses:
  "gaussProject x0 y0 size_v (JLine (map Some ring)) (JBounds b) =
     Inr (Some (map (\<lambda>p. (lngFromMercatorX ((x0 + real_of_int (px p)) / size_v) (Some b),
                           latFromMercatorY ((y0 + real_of_int (py p)) / size_v) (Some b))) ring))"
proof (cases ring)
  case Nil
  then show ?thesis by simp
next
  case (Cons p ps)
  have "gaussProject x0 y0 size_v (JLine (Some p # map Some ps)) (JBounds b) =
      Inr (Some (map (\<lambda>p. (lngFromMercatorX ((x0 + real_of_int (px p)) / size_v) (Some b),
                           latFromMercatorY ((y0 + real_of_int (py p)) / size_v) (Some b))) (p # ps)))"
    using project_points_Some [of _ "p # ps"]
    by (simp add: lngFromMercatorX_def latFromMercatorY_def Let_def add.commute
        del: project_points.simps)
  with Cons show ?thesis by simp
qed

lemma project_with_bounds: "project (Some b) x0 y0 size_v line = Inr (map unprojected line)"
  by (simp add: project_def)

lemma project_default:
  "project None x0 y0 size_v (map Some ring) =
     Inr (map (\<lambda>p. CPair (lngFromMercatorX ((x0 + real_of_int (px p)) / size_v) None)
                         (latFromMercatorY ((y0 + real_of_int (py p)) / size_v) None)) ring)"
  by (simp add: project_def mercatorProject_composes_inverses comp_def)

lemma project_ring_total: "\<exists>c. project_ring bounds x0 y0 size_v ring = Inr c"
  by (cases bounds) (simp_all add: project_ring_def project_default project_with_bounds)

lemma traverse_total:
  assumes "\<And>a. a \<in> set as \<Longrightarrow> \<exists>b. g a = Inr b"
  shows "\<exists>bs. traverse g as = Inr bs \<and> length bs = length as"
  using assms
proof (induction as)
  case Nil
  show ?case by simp
next
  case (Cons a as)
  from Cons.prems obtain b where b: "g a = Inr b" by auto
  from Cons obtain bs where "traverse g as = Inr bs" "length bs = length as" by auto
  with b show ?case by simp
qed

lemma types_examples:
  "types 1 = Some ''Point''" "types 2 = Some ''LineString''" "types 3 = Some ''Polygon''"
  by (simp_all add: types_def)

lemma typed_feature_fields:
  "f_type (typed_feature t bs) = t" "f_extent (typed_feature t bs) = 4096"
  "f_properties (typed_feature t bs) = []" "f_id (typed_feature t bs) = None"
  by (simp_all add: typed_feature_def feature_of_def)

lemma one_point_decode:
  "loadGeometry (typed_feature t one_point_bytes) = Inr [[Point 1 1]]"
  by (simp add: typed_feature_def one_point_bytes_def decode_defs)

lemma two_triangles_decode:
  "loadGeometry (typed_feature t two_triangles_bytes) =
     Inr [[Point 0 0, Point 2 0, Point 2 2, Point 0 0],
          [Point 10 10, Point 12 10, Point 12 12, Point 10 10]]"
  by (simp add: typed_feature_def two_triangles_bytes_def decode_defs)

lemma two_triangles_classify:
  "classifyRings [[Point 0 0, Point 2 0, Point 2 2, Point 0 0],
                  [Point 10 10, Point 12 10, Point 12 12, Point 10 10]] =
     Inr [[[Point 0 0, Point 2 0, Point 2 2, Point 0 0]],
          [[Point 10 10, Point 12 10, Point 12 12, Point 10 10]]]"
  by (simp add: classifyRings_def classifyRings_init_def classifyRings_result_def
      signedArea_def signedArea_loop_unfold round_double_exact Let_def)

text \<open>
  The type that \<open>toGeoJSON\<close> emits: singular exactly when the coordinate structure after
  the \<^verbatim>\<open>switch\<close> has one component, which then is the coordinates. With the default
  projection a point feature of one decoded point emits \<open>Point\<close> and the pair; a polygon
  feature whose rings classify into two groups emits \<open>MultiPolygon\<close> and two groups.
\<close>

lemma geometry_type_singular_or_multi:
  "(project_geometry f x y z bounds = Inr cs \<longrightarrow>
      (\<exists>r. toGeoJSON f x y z bounds = Inr r \<and>
         g_type (r_geometry r) =
           (if length cs = 1 then types (f_type f)
            else Some (''Multi'' @ template_text (types (f_type f)))) \<and>
         g_coordinates (r_geometry r) = (if length cs = 1 then cs ! 0 else CArray cs) \<and>
         (f_type f \<in> {1, 2, 3} \<longrightarrow>
            (g_type (r_geometry r) = types (f_type f) \<longleftrightarrow> length cs = 1)))) \<and>
   types 1 = Some ''Point'' \<and> types 2 = Some ''LineString'' \<and> types 3 = Some ''Polygon'' \<and>
   (f_type f = 1 \<and> loadGeometry f = Inr [[p]] \<longrightarrow>
      (\<exists>r. toGeoJSON f x y z None = Inr r \<and>
         g_type (r_geometry r) = Some ''Point'' \<and>
         g_coordinates (r_geometry r) =
           CPair (lngFromMercatorX ((f_extent f * x + real_of_int (px p)) / (f_extent f * 2 powr z)) None)
                 (latFromMercatorY ((f_extent f * y + real_of_int (py p)) / (f_extent f * 2 powr z)) None))) \<and>
   (f_type f = 3 \<and> loadGeometry f = Inr rings \<and> classifyRings rings = Inr [g1, g2] \<longrightarrow>
      (\<exists>r c1 c2. toGeoJSON f x y z bounds = Inr r \<and>
         g_type (r_geometry r) = Some ''MultiPolygon'' \<and>
         g_coordinates (r_geometry r) = CArray [c1, c2]))"
proof (intro conjI impI)
  assume pg: "project_geometry f x y z bounds = Inr cs"
  have "f_type f \<in> {1, 2, 3} \<Longrightarrow>
      types (f_type f) \<noteq> Some (''Multi'' @ template_text (types (f_type f)))"
    by (auto simp: types_def template_text_def)
  with pg show "\<exists>r. toGeoJSON f x y z bounds = Inr r \<and>
         g_type (r_geometry r) =
           (if length cs = 1 then types (f_type f)
            else Some (''Multi'' @ template_text (types (f_type f)))) \<and>
         g_coordinates (r_geometry r) = (if length cs = 1 then cs ! 0 else CArray cs) \<and>
         (f_type f \<in> {1, 2, 3} \<longrightarrow>
            (g_type (r_geometry r) = types (f_type f) \<longleftrightarrow> length cs = 1))"
    by (auto simp: toGeoJSON_def)
next
  assume a: "f_type f = 1 \<and> loadGeometry f = Inr [[p]]"
  let ?c = "CPair (lngFromMercatorX ((f_extent f * x + real_of_int (px p)) / (f_extent f * 2 powr z)) None)
                 (latFromMercatorY ((f_extent f * y + real_of_int (py p)) / (f_extent f * 2 powr z)) None)"
  from a have "project_geometry f x y z None = Inr [?c]"
    using project_default [of "f_extent f * x" "f_extent f * y" "f_extent f * 2 powr z" "[p]"]
    by (simp add: project_geometry_def Let_def first_point_def)
  with a show "\<exists>r. toGeoJSON f x y z None = Inr r \<and>
         g_type (r_geometry r) = Some ''Point'' \<and> g_coordinates (r_geometry r) = ?c"
    by (simp add: toGeoJSON_def types_def)
next
  assume a: "f_type f = 3 \<and> loadGeometry f = Inr rings \<and> classifyRings rings = Inr [g1, g2]"
  let ?size = "f_extent f * 2 powr z" and ?x0 = "f_extent f * x" and ?y0 = "f_extent f * y"
  let ?g = "\<lambda>polygon. case traverse (project_ring bounds ?x0 ?y0 ?size) polygon of
                           Inl e \<Rightarrow> Inl e
                         | Inr rings \<Rightarrow> Inr (CArray rings)"
  have g: "\<exists>c. ?g polygon = Inr c" for polygon
    using traverse_total [of polygon "project_ring bounds ?x0 ?y0 ?size"] project_ring_total
    by fastforce
  obtain c1 where c1: "?g g1 = Inr c1" using g by blast
  obtain c2 where c2: "?g g2 = Inr c2" using g by blast
  from a c1 c2 have "project_geometry f x y z bounds = Inr [c1, c2]"
    by (simp add: project_geometry_def Let_def)
  with a show "\<exists>r c1 c2. toGeoJSON f x y z bounds = Inr r \<and>
         g_type (r_geometry r) = Some ''MultiPolygon'' \<and>
         g_coordinates (r_geometry r) = CArray [c1, c2]"
    by (simp add: toGeoJSON_def types_def template_text_def)
qed (simp_all add: types_def)



section \<open>The claims\<close>

text \<open>
  C1. Decoding the geometry bytes that encode \<^verbatim>\<open>MoveTo(0,0) LineTo(2,0) LineTo(2,2) ClosePath\<close>
  with \<open>loadGeometry\<close> yields exactly one ring \<open>[(0,0), (2,0), (2,2), (0,0)]\<close>: the
  \<^verbatim>\<open>ClosePath\<close> appends a copy of the ring's first point and reads no delta: its pass,
  the last conjunct, moves the cursor over the one header byte and leaves \<open>(x, y)\<close> alone.
  \<open>bbox\<close> on the same bytes yields \<open>[0, 0, 2, 2]\<close>. Both
  encodings of the path (one header for the two \<^verbatim>\<open>LineTo\<close>, or one header each) decode alike.
\<close>

theorem closed_ring_decode:
  "loadGeometry (feature_of closed_ring_bytes) = Inr [[Point 0 0, Point 2 0, Point 2 2, Point 0 0]] \<and>
   bbox (feature_of closed_ring_bytes) = Inr [Finite 0, Finite 0, Finite 2, Finite 2] \<and>
   loadGeometry (feature_of closed_ring_bytes') = Inr [[Point 0 0, Point 2 0, Point 2 2, Point 0 0]] \<and>
   bbox (feature_of closed_ring_bytes') = Inr [Finite 0, Finite 0, Finite 2, Finite 2] \<and>
   loadGeometry_step
     \<lparr>s_pbf = \<lparr>buf = closed_ring_bytes, pos = 9\<rparr>, s_cmd = 2, s_length = 0, s_x = 2, s_y = 2,
      s_lines = [], s_line = Some [Point 0 0, Point 2 0, Point 2 2]\<rparr> =
   Inr \<lparr>s_pbf = \<lparr>buf = closed_ring_bytes, pos = 10\<rparr>, s_cmd = 7, s_length = 0, s_x = 2, s_y = 2,
        s_lines = [], s_line = Some [Point 0 0, Point 2 0, Point 2 2, Point 0 0]\<rparr>"
proof (intro conjI)
  show "loadGeometry_step
     \<lparr>s_pbf = \<lparr>buf = closed_ring_bytes, pos = 9\<rparr>, s_cmd = 2, s_length = 0, s_x = 2, s_y = 2,
      s_lines = [], s_line = Some [Point 0 0, Point 2 0, Point 2 2]\<rparr> =
   Inr \<lparr>s_pbf = \<lparr>buf = closed_ring_bytes, pos = 10\<rparr>, s_cmd = 7, s_length = 0, s_x = 2, s_y = 2,
        s_lines = [], s_line = Some [Point 0 0, Point 2 0, Point 2 2, Point 0 0]\<rparr>"
    by (simp add: closed_ring_bytes_def decode_defs)
  show "loadGeometry (feature_of closed_ring_bytes) = Inr [[Point 0 0, Point 2 0, Point 2 2, Point 0 0]]"
    by (simp add: closed_ring_bytes_def decode_defs)
  show "bbox (feature_of closed_ring_bytes) = Inr [Finite 0, Finite 0, Finite 2, Finite 2]"
    by (simp add: closed_ring_bytes_def decode_defs)
  show "loadGeometry (feature_of closed_ring_bytes') = Inr [[Point 0 0, Point 2 0, Point 2 2, Point 0 0]]"
    by (simp add: closed_ring_bytes'_def decode_defs)
  show "bbox (feature_of closed_ring_bytes') = Inr [Finite 0, Finite 0, Finite 2, Finite 2]"
    by (simp add: closed_ring_bytes'_def decode_defs)
qed

text \<open>
  C2. Whenever the loop of \<open>loadGeometry\<close>, or of \<open>bbox\<close>, reaches a pass whose command
  code is outside \<open>{1, 2, 7}\<close>, the whole call raises \<open>UnknownCommand\<close> with that code:
  the result is the error and carries no geometry, whatever rings the earlier passes had
  accumulated.
\<close>

theorem unknown_command_aborts:
  "(readVarint (geometry_start f) = Inr (n, p) \<and>
    lg_run (nat n + pos p) (loadGeometry_init p) cs s \<and>
    pos (s_pbf s) < nat n + pos p \<and> read_command s = Inr s1 \<and> s_cmd s1 \<notin> {1, 2, 7}
    \<longrightarrow> loadGeometry f = Inl (UnknownCommand (s_cmd s1)))
   \<and>
   (readVarint (geometry_start f) = Inr (n, p) \<and>
    bbox_run (nat n + pos p) (bbox_init p) cs' t \<and>
    pos (s_pbf t) < nat n + pos p \<and> read_command t = Inr t1 \<and> s_cmd t1 \<notin> {1, 2, 7}
    \<longrightarrow> bbox f = Inl (UnknownCommand (s_cmd t1)))"
proof (intro conjI impI; elim conjE)
  assume hd: "readVarint (geometry_start f) = Inr (n, p)"
    and r: "lg_run (nat n + pos p) (loadGeometry_init p) cs s"
    and rest: "pos (s_pbf s) < nat n + pos p" "read_command s = Inr s1" "s_cmd s1 \<notin> {1, 2, 7}"
  have "loadGeometry_loop (nat n + pos p) (loadGeometry_init p) = Inl (UnknownCommand (s_cmd s1))"
    using lg_run_loop [OF r] lg_unknown_aborts [OF rest] by simp
  with hd show "loadGeometry f = Inl (UnknownCommand (s_cmd s1))"
    by (simp add: loadGeometry_def geometry_start_def)
next
  assume hd: "readVarint (geometry_start f) = Inr (n, p)"
    and r: "bbox_run (nat n + pos p) (bbox_init p) cs' t"
    and rest: "pos (s_pbf t) < nat n + pos p" "read_command t = Inr t1" "s_cmd t1 \<notin> {1, 2, 7}"
  have "bbox_loop (nat n + pos p) (bbox_init p) = Inl (UnknownCommand (s_cmd t1))"
    using bbox_run_loop [OF r] bbox_unknown_aborts [OF rest] by simp
  with hd show "bbox f = Inl (UnknownCommand (s_cmd t1))"
    by (simp add: bbox_def geometry_start_def)
qed



theorem unknown_command_aborts_witness:
  "lg_run 5 (loadGeometry_init \<lparr>buf = unknown_bytes, pos = 1\<rparr>) [1] after_MoveTo \<and>
   (\<exists>s1. read_command after_MoveTo = Inr s1 \<and> s_cmd s1 = 3) \<and>
   loadGeometry (feature_of unknown_bytes) = Inl (UnknownCommand 3) \<and>
   bbox_run 5 (bbox_init \<lparr>buf = unknown_bytes, pos = 1\<rparr>) [1] after_MoveTo_bbox \<and>
   (\<exists>t1. read_command after_MoveTo_bbox = Inr t1 \<and> s_cmd t1 = 3) \<and>
   bbox (feature_of unknown_bytes) = Inl (UnknownCommand 3)"
proof -
  let ?p = "\<lparr>buf = unknown_bytes, pos = 1\<rparr>"
  let ?s1 = "after_MoveTo\<lparr>s_pbf := \<lparr>buf = unknown_bytes, pos = 5\<rparr>, s_cmd := 3, s_length := - 1\<rparr>"
  let ?t1 = "after_MoveTo_bbox\<lparr>s_pbf := \<lparr>buf = unknown_bytes, pos = 5\<rparr>, s_cmd := 3, s_length := - 1\<rparr>"
  have hd: "readVarint (geometry_start (feature_of unknown_bytes)) = Inr (4, ?p)"
    by (simp add: unknown_bytes_def feature_of_def geometry_start_def readVarint_def round_double_exact)
  have r: "lg_run 5 (loadGeometry_init ?p) [1] after_MoveTo"
    using lg_run_step [OF lg_run_start, of "loadGeometry_init ?p" 5 after_MoveTo]
    by (simp add: after_MoveTo_def unknown_bytes_def decode_defs)
  have c: "read_command after_MoveTo = Inr ?s1"
    by (simp add: after_MoveTo_def unknown_bytes_def decode_defs)
  have r': "bbox_run 5 (bbox_init ?p) [1] after_MoveTo_bbox"
    using bbox_run_step [OF bbox_run_start, of "bbox_init ?p" 5 after_MoveTo_bbox]
    by (simp add: after_MoveTo_bbox_def unknown_bytes_def decode_defs)
  have c': "read_command after_MoveTo_bbox = Inr ?t1"
    by (simp add: after_MoveTo_bbox_def unknown_bytes_def decode_defs)
  have "pos (s_pbf after_MoveTo) < 5" "pos (s_pbf after_MoveTo_bbox) < 5"
    by (simp_all add: after_MoveTo_def after_MoveTo_bbox_def)
  with unknown_command_aborts [of "feature_of unknown_bytes" 4 ?p "[1]" after_MoveTo ?s1
      "[1]" after_MoveTo_bbox ?t1] hd r c r' c'
  show ?thesis by simp
qed



text \<open>
  C3. Throughout one decode the deltas of every \<^verbatim>\<open>MoveTo\<close> and \<^verbatim>\<open>LineTo\<close> are added to
  one running \<open>(x, y)\<close> that starts at \<open>(0, 0)\<close> and is never reset. For every successful
  \<open>loadGeometry\<close> and every successful \<open>bbox\<close>, the passes of the loop from the initial
  state to the end of the field are such that the accumulator at the start of each pass,
  and at the end, is the position after the commands read so far, across ring
  boundaries; the rings returned are those the spec's construction builds from the
  commands and these positions (a \<^verbatim>\<open>MoveTo\<close> stores the open ring and starts a new one at
  the updated position), and the box returned is the one the spec's tracking gives for
  them. The position after a command sequence adds, in JavaScript arithmetic, the deltas
  of all its \<^verbatim>\<open>MoveTo\<close> and \<^verbatim>\<open>LineTo\<close>; it is the exact sum of these deltas as long as no
  partial sum reaches \<open>2 ^ 53\<close> in magnitude.
\<close>

theorem accumulator_is_cumulative:
  "(loadGeometry f = Inr rings \<longrightarrow>
      (\<exists>n p ss s.
         readVarint (geometry_start f) = Inr (n, p) \<and>
         lg_passes (nat n + pos p) (loadGeometry_init p) ss s \<and>
         \<not> pos (s_pbf s) < nat n + pos p \<and>
         (\<forall>k\<le>length ss.
            (s_x ((ss @ [s]) ! k), s_y ((ss @ [s]) ! k)) =
              position_after (map pass_command (take k ss))) \<and>
         rings = rings_of (positions (map pass_command ss)))) \<and>
   (bbox f = Inr box \<longrightarrow>
      (\<exists>n p ts t.
         readVarint (geometry_start f) = Inr (n, p) \<and>
         bbox_passes (nat n + pos p) (bbox_init p) ts t \<and>
         \<not> pos (s_pbf t) < nat n + pos p \<and>
         (\<forall>k\<le>length ts.
            (s_x ((ts @ [t]) ! k), s_y ((ts @ [t]) ! k)) =
              position_after (map pass_command (take k ts))) \<and>
         box = box_of (positions (map pass_command ts)))) \<and>
   position_after [] = (0, 0) \<and>
   position_after (tr @ [(c, dx, dy)]) =
     (if c = 1 \<or> c = 2 then
        (round_double (fst (position_after tr) + dx), round_double (snd (position_after tr) + dy))
      else position_after tr) \<and>
   ((\<forall>k\<le>length tr. \<bar>fst (exact_position (take k tr))\<bar> < 2 ^ 53 \<and>
                      \<bar>snd (exact_position (take k tr))\<bar> < 2 ^ 53) \<longrightarrow>
      position_after tr = exact_position tr)"
proof (intro conjI impI)
  assume ok: "loadGeometry f = Inr rings"
  then obtain n p s where hd: "readVarint (geometry_start f) = Inr (n, p)"
    and l: "loadGeometry_loop (nat n + pos p) (loadGeometry_init p) = Inr s"
    and res: "rings = loadGeometry_result s"
    by (auto simp: loadGeometry_def split: sum.splits)
  have "lg_passes (nat n + pos p) (loadGeometry_init p) [] (loadGeometry_init p)"
    unfolding lg_passes_def by (rule passes_start)
  from lg_loop_passes [OF l this] obtain ss where
    r: "lg_passes (nat n + pos p) (loadGeometry_init p) ss s"
    and e: "\<not> pos (s_pbf s) < nat n + pos p"
    by blast
  have every: "\<forall>k\<le>length ss.
            (s_x ((ss @ [s]) ! k), s_y ((ss @ [s]) ! k)) =
              position_after (map pass_command (take k ss))"
  proof (intro allI impI)
    fix k assume "k \<le> length ss"
    with r have "lg_passes (nat n + pos p) (loadGeometry_init p) (take k ss) ((ss @ [s]) ! k)"
      unfolding lg_passes_def by (rule passes_prefix)
    from lg_passes_invariant [OF this]
    show "(s_x ((ss @ [s]) ! k), s_y ((ss @ [s]) ! k)) =
              position_after (map pass_command (take k ss))" by simp
  qed
  from lg_passes_invariant [OF r]
  have "foldl build ([], None) (positions (map pass_command ss)) = (s_lines s, s_line s)"
    by simp
  then have "rings = rings_of (positions (map pass_command ss))"
    by (simp add: res rings_of_def loadGeometry_result_def split: option.splits)
  with hd r e every
  show "\<exists>n p ss s.
         readVarint (geometry_start f) = Inr (n, p) \<and>
         lg_passes (nat n + pos p) (loadGeometry_init p) ss s \<and>
         \<not> pos (s_pbf s) < nat n + pos p \<and>
         (\<forall>k\<le>length ss.
            (s_x ((ss @ [s]) ! k), s_y ((ss @ [s]) ! k)) =
              position_after (map pass_command (take k ss))) \<and>
         rings = rings_of (positions (map pass_command ss))"
    by blast
next
  assume ok: "bbox f = Inr box"
  then obtain n p t where hd: "readVarint (geometry_start f) = Inr (n, p)"
    and l: "bbox_loop (nat n + pos p) (bbox_init p) = Inr t"
    and res: "box = [s_x1 t, s_y1 t, s_x2 t, s_y2 t]"
    by (auto simp: bbox_def split: sum.splits)
  have "bbox_passes (nat n + pos p) (bbox_init p) [] (bbox_init p)"
    unfolding bbox_passes_def by (rule passes_start)
  from bbox_loop_passes [OF l this] obtain ts where
    r: "bbox_passes (nat n + pos p) (bbox_init p) ts t"
    and e: "\<not> pos (s_pbf t) < nat n + pos p"
    by blast
  have every: "\<forall>k\<le>length ts.
            (s_x ((ts @ [t]) ! k), s_y ((ts @ [t]) ! k)) =
              position_after (map pass_command (take k ts))"
  proof (intro allI impI)
    fix k assume "k \<le> length ts"
    with r have "bbox_passes (nat n + pos p) (bbox_init p) (take k ts) ((ts @ [t]) ! k)"
      unfolding bbox_passes_def by (rule passes_prefix)
    from bbox_passes_invariant [OF this]
    show "(s_x ((ts @ [t]) ! k), s_y ((ts @ [t]) ! k)) =
              position_after (map pass_command (take k ts))" by simp
  qed
  from bbox_passes_invariant [OF r]
  have "foldl track (Infinity, MinusInfinity, Infinity, MinusInfinity)
          (positions (map pass_command ts)) = (s_x1 t, s_x2 t, s_y1 t, s_y2 t)"
    by simp
  then have "box = box_of (positions (map pass_command ts))"
    by (simp add: res box_of_def)
  with hd r e every
  show "\<exists>n p ts t.
         readVarint (geometry_start f) = Inr (n, p) \<and>
         bbox_passes (nat n + pos p) (bbox_init p) ts t \<and>
         \<not> pos (s_pbf t) < nat n + pos p \<and>
         (\<forall>k\<le>length ts.
            (s_x ((ts @ [t]) ! k), s_y ((ts @ [t]) ! k)) =
              position_after (map pass_command (take k ts))) \<and>
         box = box_of (positions (map pass_command ts))"
    by blast
next
  show "position_after [] = (0, 0)" by (simp add: position_after_def)
next
  show "position_after (tr @ [(c, dx, dy)]) =
     (if c = 1 \<or> c = 2 then
        (round_double (fst (position_after tr) + dx), round_double (snd (position_after tr) + dy))
      else position_after tr)"
    by (cases "position_after tr") (simp add: position_after_snoc)
next
  assume "\<forall>k\<le>length tr. \<bar>fst (exact_position (take k tr))\<bar> < 2 ^ 53 \<and>
                      \<bar>snd (exact_position (take k tr))\<bar> < 2 ^ 53"
  then show "position_after tr = exact_position tr" by (rule position_after_exact)
qed

theorem accumulator_is_cumulative_witness:
  "loadGeometry (feature_of two_rings_bytes) = Inr [[Point 1 1, Point 2 1], [Point 4 3]] \<and>
   bbox (feature_of two_rings_bytes) = Inr [Finite 1, Finite 1, Finite 4, Finite 3] \<and>
   (\<exists>n p ss s.
      readVarint (geometry_start (feature_of two_rings_bytes)) = Inr (n, p) \<and>
      lg_passes (nat n + pos p) (loadGeometry_init p) ss s \<and>
      [[Point 1 1, Point 2 1], [Point 4 3]] = rings_of (positions (map pass_command ss))) \<and>
   (\<exists>n p ts t.
      readVarint (geometry_start (feature_of two_rings_bytes)) = Inr (n, p) \<and>
      bbox_passes (nat n + pos p) (bbox_init p) ts t \<and>
      [Finite 1, Finite 1, Finite 4, Finite 3] = box_of (positions (map pass_command ts))) \<and>
   map pass_command
     [loadGeometry_init \<lparr>buf = two_rings_bytes, pos = 1\<rparr>,
      \<lparr>s_pbf = \<lparr>buf = two_rings_bytes, pos = 4\<rparr>, s_cmd = 1, s_length = 0, s_x = 1, s_y = 1,
       s_lines = [], s_line = Some [Point 1 1]\<rparr>,
      \<lparr>s_pbf = \<lparr>buf = two_rings_bytes, pos = 7\<rparr>, s_cmd = 2, s_length = 0, s_x = 2, s_y = 1,
       s_lines = [], s_line = Some [Point 1 1, Point 2 1]\<rparr>] = two_rings_path \<and>
   rings_of (positions two_rings_path) = [[Point 1 1, Point 2 1], [Point 4 3]] \<and>
   box_of (positions two_rings_path) = [Finite 1, Finite 1, Finite 4, Finite 3] \<and>
   position_after two_rings_path = (4, 3) \<and>
   exact_position two_rings_path = (4, 3) \<and>
   position_after [(1, 2 ^ 53, 0), (2, 1, 0)] = (2 ^ 53, 0) \<and>
   exact_position [(1, 2 ^ 53, 0), (2, 1, 0)] = (2 ^ 53 + 1, 0) \<and>
   loadGeometry big_delta_feature = Inr [[Point (2 ^ 53) 0, Point (2 ^ 53) 0]] \<and>
   bbox big_delta_feature = Inr [Finite (2 ^ 53), Finite 0, Finite (2 ^ 53), Finite 0]"
proof -
  let ?f = "feature_of two_rings_bytes"
  have lg: "loadGeometry ?f = Inr [[Point 1 1, Point 2 1], [Point 4 3]]"
    by (simp add: two_rings_bytes_def decode_defs)
  have bb: "bbox ?f = Inr [Finite 1, Finite 1, Finite 4, Finite 3]"
    by (simp add: two_rings_bytes_def decode_defs)
  have small: "\<forall>k\<le>length two_rings_path.
      \<bar>fst (exact_position (take k two_rings_path))\<bar> < 2 ^ 53 \<and>
      \<bar>snd (exact_position (take k two_rings_path))\<bar> < 2 ^ 53"
    by (auto simp: two_rings_path_def exact_position_def le_Suc_eq numeral_3_eq_3)
  note inst = accumulator_is_cumulative
    [where f = ?f and rings = "[[Point 1 1, Point 2 1], [Point 4 3]]"
       and box = "[Finite 1, Finite 1, Finite 4, Finite 3]" and tr = two_rings_path]
  from inst lg have 1: "\<exists>n p ss s.
      readVarint (geometry_start ?f) = Inr (n, p) \<and>
      lg_passes (nat n + pos p) (loadGeometry_init p) ss s \<and>
      [[Point 1 1, Point 2 1], [Point 4 3]] = rings_of (positions (map pass_command ss))"
    by blast
  from inst bb have 2: "\<exists>n p ts t.
      readVarint (geometry_start ?f) = Inr (n, p) \<and>
      bbox_passes (nat n + pos p) (bbox_init p) ts t \<and>
      [Finite 1, Finite 1, Finite 4, Finite 3] = box_of (positions (map pass_command ts))"
    by blast
  from inst small have 3: "position_after two_rings_path = (4, 3)"
    by (simp add: two_rings_path_values)
  have 4: "map pass_command
     [loadGeometry_init \<lparr>buf = two_rings_bytes, pos = 1\<rparr>,
      \<lparr>s_pbf = \<lparr>buf = two_rings_bytes, pos = 4\<rparr>, s_cmd = 1, s_length = 0, s_x = 1, s_y = 1,
       s_lines = [], s_line = Some [Point 1 1]\<rparr>,
      \<lparr>s_pbf = \<lparr>buf = two_rings_bytes, pos = 7\<rparr>, s_cmd = 2, s_length = 0, s_x = 2, s_y = 1,
       s_lines = [], s_line = Some [Point 1 1, Point 2 1]\<rparr>] = two_rings_path"
    by (simp add: two_rings_path_def two_rings_bytes_def pass_command_def decode_defs)
  have r: "round_double 9007199254740992 = 9007199254740992"
    "round_double 9007199254740993 = 9007199254740992"
    using round_double_at [of 1 9007199254740992] round_double_at [of 1 9007199254740993]
    by simp_all
  have "position_after [(1, 2 ^ 53, 0)] = (2 ^ 53, 0)"
    by (simp add: position_after_def r round_double_exact)
  with accumulator_is_cumulative [where tr = "[(1, 2 ^ 53, 0)]" and c = 2 and dx = 1 and dy = 0]
  have 5: "position_after [(1, 2 ^ 53, 0), (2, 1, 0)] = (2 ^ 53, 0)"
    by (simp add: r round_double_exact)
  have 6: "exact_position [(1, 2 ^ 53, 0), (2, 1, 0)] = (2 ^ 53 + 1, 0)"
    by (simp add: exact_position_def)
  from lg bb 1 2 3 4 5 6 two_rings_path_values big_delta_decode show ?thesis by simp
qed


text \<open>
  C4. For two non-degenerate rings \<open>classifyRings\<close> returns one polygon \<open>[exterior, hole]\<close>
  when their signed areas have opposite signs and two single-ring polygons when the signs
  agree. The signed area is the one \<open>signedArea\<close> computes: the shoelace sum of
  \<open>(p2.x - p1.x) * (p1.y + p2.y)\<close> over the consecutive index pairs with wraparound, taken in
  index order in double arithmetic; it is the exact sum whenever nothing is rounded. On
  more than one ring, rings whose computed area is zero are skipped: the result is that of
  the loop on the non-degenerate rings alone. An input of at most one ring bypasses the
  classification and is returned as a single group.
\<close>

theorem classifyRings_two_rings:
  "(non_degenerate r1 \<and> non_degenerate r2 \<longrightarrow>
      classifyRings [r1, r2] =
        (if (signedArea r1 < 0) = (signedArea r2 < 0) then Inr [[r1], [r2]] else Inr [[r1, r2]])) \<and>
   signedArea ring = shoelace_double ring \<and>
   (exact_area ring \<longrightarrow> signedArea ring = shoelace ring) \<and>
   (1 < length rings \<longrightarrow>
      classifyRings rings =
        (case classifyRings_loop (filter non_degenerate rings) classifyRings_init of
           Inl e \<Rightarrow> Inl e
         | Inr s \<Rightarrow> Inr (classifyRings_result s))) \<and>
   (length rings \<le> 1 \<longrightarrow> classifyRings rings = Inr [rings])"
proof (intro conjI impI)
  assume "non_degenerate r1 \<and> non_degenerate r2"
  then show "classifyRings [r1, r2] =
        (if (signedArea r1 < 0) = (signedArea r2 < 0) then Inr [[r1], [r2]] else Inr [[r1, r2]])"
    by (auto simp: classifyRings_def classifyRings_init_def classifyRings_result_def
        non_degenerate_def Let_def)
next
  show "signedArea ring = shoelace_double ring" by (rule signedArea_shoelace_double)
next
  assume "exact_area ring"
  then show "signedArea ring = shoelace ring"
    by (simp add: signedArea_shoelace_double shoelace_double_exact)
next
  assume "1 < length rings"
  then show "classifyRings rings =
        (case classifyRings_loop (filter non_degenerate rings) classifyRings_init of
           Inl e \<Rightarrow> Inl e
         | Inr s \<Rightarrow> Inr (classifyRings_result s))"
    using classifyRings_loop_skips [of rings classifyRings_init]
    by (simp add: classifyRings_def)
next
  assume "length rings \<le> 1"
  then show "classifyRings rings = Inr [rings]" by (simp add: classifyRings_def)
qed

theorem classifyRings_two_rings_witness:
  "non_degenerate square \<and> non_degenerate square_reversed \<and> \<not> non_degenerate flat_ring \<and>
   classifyRings [square, square_reversed] = Inr [[square, square_reversed]] \<and>
   classifyRings [square, square] = Inr [[square], [square]] \<and>
   classifyRings [square, flat_ring, square_reversed] = Inr [[square, square_reversed]] \<and>
   classifyRings [square] = Inr [[square]] \<and>
   classifyRings [] = Inr [[]] \<and>
   exact_area square \<and> shoelace square = 32 \<and>
   shoelace_double big_ring = 0 \<and> shoelace big_ring = - 1 \<and> \<not> non_degenerate big_ring \<and>
   classifyRings [big_ring, square] = Inr [[square]]"
proof -
  note sa = signedArea_examples
  have nd: "non_degenerate square" "non_degenerate square_reversed" "\<not> non_degenerate flat_ring"
    "\<not> non_degenerate big_ring"
    by (simp_all add: non_degenerate_def sa big_ring_area)
  have five: "{..<5::nat} = {0, 1, 2, 3, 4}" by auto
  have ex: "exact_area square"
    by (simp add: exact_area_def square_def five)
  from classifyRings_two_rings [of square square_reversed square "[square, flat_ring, square_reversed]"] nd ex
  have 1: "classifyRings [square, square_reversed] = Inr [[square, square_reversed]]"
    and 2: "classifyRings [square, flat_ring, square_reversed] = Inr [[square, square_reversed]]"
    and 3: "shoelace square = 32"
    by (simp_all add: sa classifyRings_init_def classifyRings_result_def Let_def)
  from classifyRings_two_rings [of square square square "[square]"] nd
  have 4: "classifyRings [square, square] = Inr [[square], [square]]"
    and 5: "classifyRings [square] = Inr [[square]]"
    by simp_all
  from classifyRings_two_rings [of square square big_ring "[]"]
  have 6: "classifyRings [] = Inr [[]]" and 7: "shoelace_double big_ring = 0"
    by (simp_all add: big_ring_area)
  from classifyRings_two_rings [of square square square "[big_ring, square]"] nd
  have 8: "classifyRings [big_ring, square] = Inr [[square]]"
    by (simp add: sa classifyRings_init_def classifyRings_result_def Let_def)
  from nd ex 1 2 3 4 5 6 7 8 big_ring_area(2) show ?thesis by simp
qed

text \<open>
  C5, as the spec states it, says that for some input a hole ring is met before any
  exterior and is appended while no polygon is open. No input does that: \<open>classifyRings\<close>
  never raises, and the only thing in it that can raise is \<^verbatim>\<open>polygon.push\<close> on an
  \<^verbatim>\<open>undefined\<close> polygon.
\<close>

theorem hole_before_exterior_impossible:
  "\<not> (\<exists>rings e. classifyRings rings = Inl e)"
proof
  assume "\<exists>rings e. classifyRings rings = Inl e"
  then obtain rings e where e: "classifyRings rings = Inl e" by blast
  have "c_ccw classifyRings_init \<noteq> None \<longrightarrow> c_polygon classifyRings_init \<noteq> None"
    by (simp add: classifyRings_init_def)
  from classifyRings_loop_total [OF this, of rings] e show False
    by (auto simp: classifyRings_def split: if_splits)
qed

text \<open>
  C5, amended. The first non-degenerate ring fixes the reference winding \<^verbatim>\<open>ccw\<close> and,
  having that winding itself, opens a polygon in the same pass. So once \<^verbatim>\<open>ccw\<close> is set a
  polygon is open, and this holds from the initial state through every pass of the loop:
  the hole-append branch only ever runs with a polygon open, and \<open>classifyRings\<close> returns
  normally on every input.
\<close>

theorem hole_appended_to_open_polygon:
  "((c_ccw s \<noteq> None \<longrightarrow> c_polygon s \<noteq> None) \<longrightarrow>
      (\<exists>s'. classifyRings_loop rings s = Inr s' \<and> (c_ccw s' \<noteq> None \<longrightarrow> c_polygon s' \<noteq> None))) \<and>
   (c_ccw classifyRings_init \<noteq> None \<longrightarrow> c_polygon classifyRings_init \<noteq> None) \<and>
   (\<exists>polygons. classifyRings rings = Inr polygons)"
proof (intro conjI impI)
  assume "c_ccw s \<noteq> None \<longrightarrow> c_polygon s \<noteq> None"
  then show "\<exists>s'. classifyRings_loop rings s = Inr s' \<and> (c_ccw s' \<noteq> None \<longrightarrow> c_polygon s' \<noteq> None)"
    by (rule classifyRings_loop_total)
next
  assume "c_ccw classifyRings_init \<noteq> None"
  then show "c_polygon classifyRings_init \<noteq> None" by (simp add: classifyRings_init_def)
next
  have "c_ccw classifyRings_init \<noteq> None \<longrightarrow> c_polygon classifyRings_init \<noteq> None"
    by (simp add: classifyRings_init_def)
  from classifyRings_loop_total [OF this, of rings]
  show "\<exists>polygons. classifyRings rings = Inr polygons"
    by (auto simp: classifyRings_def)
qed

theorem hole_appended_to_open_polygon_witness:
  "classifyRings_loop [square_reversed, square] classifyRings_init =
     Inr \<lparr>c_polygons = [], c_polygon = Some [square_reversed, square], c_ccw = Some True\<rparr> \<and>
   classifyRings [square_reversed, square] = Inr [[square_reversed, square]]"
  using hole_appended_to_open_polygon [of classifyRings_init "[square_reversed, square]"]
  by (simp add: classifyRings_def classifyRings_init_def classifyRings_result_def
      signedArea_examples Let_def)


text \<open>
  C8. In exact arithmetic the inverse projections undo the forward ones: for every
  latitude in \<open>(-85.06, 85.06)\<close> degrees \<open>latFromMercatorY (mercatorYfromLat lat) = lat\<close>,
  for every longitude in \<open>[-180, 180)\<close> \<open>lngFromMercatorX (mercatorXfromLng lng) = lng\<close>,
  and with a bounds rectangle (\<open>west < east\<close>, \<open>south < north\<close>) the same holds for every
  point inside the rectangle or on its boundary. What the program adds to this is the
  rounding of floating point only.
\<close>

theorem projection_round_trip:
  "(- 85.06 < lat \<and> lat < 85.06 \<longrightarrow> latFromMercatorY (mercatorYfromLat lat None) None = lat) \<and>
   (- 180 \<le> lng \<and> lng < 180 \<longrightarrow> lngFromMercatorX (mercatorXfromLng lng None) None = lng) \<and>
   (getWest b < getEast b \<and> getSouth b < getNorth b \<and>
    getWest b \<le> lng' \<and> lng' \<le> getEast b \<and> getSouth b \<le> lat' \<and> lat' \<le> getNorth b \<longrightarrow>
      lngFromMercatorX (mercatorXfromLng lng' (Some b)) (Some b) = lng' \<and>
      latFromMercatorY (mercatorYfromLat lat' (Some b)) (Some b) = lat')"
proof (intro conjI impI)
  assume "- 85.06 < lat \<and> lat < 85.06"
  then have "- 90 < lat" "lat < 90" by simp_all
  then show "latFromMercatorY (mercatorYfromLat lat None) None = lat"
    by (rule latitude_round_trip)
next
  show "lngFromMercatorX (mercatorXfromLng lng None) None = lng"
    by (rule longitude_round_trip)
next
  assume a: "getWest b < getEast b \<and> getSouth b < getNorth b \<and>
    getWest b \<le> lng' \<and> lng' \<le> getEast b \<and> getSouth b \<le> lat' \<and> lat' \<le> getNorth b"
  then show "lngFromMercatorX (mercatorXfromLng lng' (Some b)) (Some b) = lng'"
    by (simp add: bounds_longitude_round_trip)
  from a show "latFromMercatorY (mercatorYfromLat lat' (Some b)) (Some b) = lat'"
    by (simp add: bounds_latitude_round_trip)
qed

theorem projection_round_trip_witness:
  "- 85.06 < (45::real) \<and> (45::real) < 85.06 \<and>
   latFromMercatorY (mercatorYfromLat 45 None) None = 45 \<and>
   lngFromMercatorX (mercatorXfromLng (- 180) None) None = - 180 \<and>
   lngFromMercatorX (mercatorXfromLng 10 (Some ten_degrees)) (Some ten_degrees) = 10 \<and>
   latFromMercatorY (mercatorYfromLat 2.5 (Some ten_degrees)) (Some ten_degrees) = 2.5"
  using projection_round_trip [of 45 "- 180" ten_degrees 10 "2.5"]
  by (simp add: ten_degrees_def)

text \<open>
  C9. With bounds, \<open>altitudeFromMercatorZ\<close> does not undo \<open>mercatorZfromAltitude\<close>: the
  forward direction divides by \<open>north - lat\<close>, the backward one multiplies by
  \<open>north - y\<close> with \<open>y\<close> the projected coordinate, not the latitude. In the rectangle
  \<open>ten_degrees\<close>, an altitude of 100 at latitude 5 becomes \<open>z = 20\<close> at \<open>y = 1/2\<close> and comes
  back as 190. (Without bounds the round trip is exact: \<open>altitude_round_trip_default\<close>.)
\<close>

theorem altitude_round_trip_fails_with_bounds:
  "mercatorZfromAltitude 100 5 (Some ten_degrees) = 20 \<and>
   mercatorYfromLat 5 (Some ten_degrees) = 1 / 2 \<and>
   altitudeFromMercatorZ (mercatorZfromAltitude 100 5 (Some ten_degrees))
     (mercatorYfromLat 5 (Some ten_degrees)) (Some ten_degrees) = 190 \<and>
   toAltitude (fromLngLat 5 5 100 (Some ten_degrees)) (Some ten_degrees) = 190 \<and>
   toAltitude (fromLngLat 5 5 100 (Some ten_degrees)) (Some ten_degrees) \<noteq> 100"
  by (simp add: toAltitude_def fromLngLat_def altitudeFromMercatorZ_def mercatorZfromAltitude_def
      mercatorYfromLat_def ten_degrees_def)


text \<open>
  C6. With bounds supplied \<open>toGeoJSON\<close> does not project at all. On a point feature
  holding the tile point \<open>(1, 1)\<close>, with the rectangle \<open>ten_degrees\<close>, the emitted
  coordinates are the tile point itself: \<^verbatim>\<open>gaussProject.bind(null, bounds)\<close> passes the
  bounds as the parameter \<^verbatim>\<open>line\<close> and the array as the parameter \<^verbatim>\<open>bounds\<close>, and the
  loop over \<^verbatim>\<open>line.length\<close> never runs. Called with its parameters in the order it
  declares them, \<open>gaussProject\<close> yields the pair the bounds-relative inverses give,
  \<open>[10/4096, 10 - 10/4096]\<close>. (Without bounds the inline projection is the composition
  of the inverses: \<open>mercatorProject_composes_inverses\<close>.)
\<close>

theorem bounds_projection_not_applied:
  "toGeoJSON (typed_feature 1 one_point_bytes) 0 0 0 (Some ten_degrees) =
     Inr \<lparr>r_type = ''Feature'',
          r_geometry = \<lparr>g_type = Some ''Point'', g_coordinates = CPoint (Point 1 1)\<rparr>,
          r_properties = [], r_id = None\<rparr> \<and>
   gaussProject 0 0 4096 (JBounds ten_degrees) (JLine [Some (Point 1 1)]) = Inr None \<and>
   gaussProject 0 0 4096 (JLine [Some (Point 1 1)]) (JBounds ten_degrees) =
     Inr (Some [(lngFromMercatorX (1 / 4096) (Some ten_degrees),
                 latFromMercatorY (1 / 4096) (Some ten_degrees))]) \<and>
   lngFromMercatorX (1 / 4096) (Some ten_degrees) = 10 / 4096 \<and>
   latFromMercatorY (1 / 4096) (Some ten_degrees) = 10 - 10 / 4096"
proof (intro conjI)
  have "project_geometry (typed_feature 1 one_point_bytes) 0 0 0 (Some ten_degrees) =
      Inr [CPoint (Point 1 1)]"
    by (simp add: project_geometry_def one_point_decode project_with_bounds unprojected_def
        first_point_def typed_feature_fields)
  then show "toGeoJSON (typed_feature 1 one_point_bytes) 0 0 0 (Some ten_degrees) =
     Inr \<lparr>r_type = ''Feature'',
          r_geometry = \<lparr>g_type = Some ''Point'', g_coordinates = CPoint (Point 1 1)\<rparr>,
          r_properties = [], r_id = None\<rparr>"
    by (simp add: toGeoJSON_def types_def typed_feature_fields)
next
  show "gaussProject 0 0 4096 (JLine [Some (Point 1 1)]) (JBounds ten_degrees) =
     Inr (Some [(lngFromMercatorX (1 / 4096) (Some ten_degrees),
                 latFromMercatorY (1 / 4096) (Some ten_degrees))])"
    using gaussProject_composes_inverses [of 0 0 4096 "[Point 1 1]" ten_degrees] by simp
qed (simp_all add: lngFromMercatorX_def latFromMercatorY_def ten_degrees_def)


text \<open>
  C7. A \<open>Point\<close> feature with exactly one decoded point does not emit a pair
  \<open>[lng, lat]\<close> when bounds are supplied: the type is \<open>Point\<close>, but the coordinates are the
  tile point itself, left unprojected by the bound \<^verbatim>\<open>gaussProject\<close> (the defect of C6).
\<close>

theorem point_with_bounds_emits_tile_point:
  "f_type f = 1 \<and> loadGeometry f = Inr [[p]] \<longrightarrow>
     (\<exists>r. toGeoJSON f x y z (Some b) = Inr r \<and>
        g_type (r_geometry r) = Some ''Point'' \<and>
        g_coordinates (r_geometry r) = CPoint p \<and>
        (\<forall>lng lat. g_coordinates (r_geometry r) \<noteq> CPair lng lat))"
proof
  assume a: "f_type f = 1 \<and> loadGeometry f = Inr [[p]]"
  then have "project_geometry f x y z (Some b) = Inr [CPoint p]"
    by (simp add: project_geometry_def Let_def project_with_bounds unprojected_def first_point_def)
  with a show "\<exists>r. toGeoJSON f x y z (Some b) = Inr r \<and>
        g_type (r_geometry r) = Some ''Point'' \<and>
        g_coordinates (r_geometry r) = CPoint p \<and>
        (\<forall>lng lat. g_coordinates (r_geometry r) \<noteq> CPair lng lat)"
    by (simp add: toGeoJSON_def types_def)
qed

theorem point_with_bounds_emits_tile_point_witness:
  "f_type (typed_feature 1 one_point_bytes) = 1 \<and>
   loadGeometry (typed_feature 1 one_point_bytes) = Inr [[Point 1 1]] \<and>
   (\<exists>r. toGeoJSON (typed_feature 1 one_point_bytes) 1 2 3 (Some ten_degrees) = Inr r \<and>
      g_type (r_geometry r) = Some ''Point'' \<and>
      g_coordinates (r_geometry r) = CPoint (Point 1 1))"
  using point_with_bounds_emits_tile_point
    [of "typed_feature 1 one_point_bytes" "Point 1 1" 1 2 3 ten_degrees]
  by (auto simp: typed_feature_fields one_point_decode)

text \<open>
  C10. When a run of the loop of \<open>loadGeometry\<close> that has executed no \<^verbatim>\<open>MoveTo\<close> reaches
  a \<^verbatim>\<open>LineTo\<close> (code 2), no ring has been created, and the call fails with an error that
  is not \<open>UnknownCommand\<close>: \<open>TypeError\<close>, from \<^verbatim>\<open>line.push\<close> on the missing ring, once
  the two deltas have been read (\<open>MalformedBuffer\<close> if the reader cannot supply them). Hence
  in every successful decode each \<^verbatim>\<open>LineTo\<close> executed comes after some \<^verbatim>\<open>MoveTo\<close>. A
  \<^verbatim>\<open>ClosePath\<close> executed while no ring exists is guarded (\<^verbatim>\<open>if (line)\<close>) and changes neither
  the accumulator nor the rings.
\<close>

theorem lineTo_needs_moveTo:
  "(readVarint (geometry_start f) = Inr (n, p) \<and>
    lg_run (nat n + pos p) (loadGeometry_init p) cs s \<and> 1 \<notin> set cs \<and>
    pos (s_pbf s) < nat n + pos p \<and> read_command s = Inr s1 \<and> s_cmd s1 = 2
    \<longrightarrow> s_line s = None \<and>
        loadGeometry f = (case read_delta s1 of Inl e \<Rightarrow> Inl MalformedBuffer | Inr s2 \<Rightarrow> Inl TypeError)) \<and>
   (loadGeometry f = Inr rings
    \<longrightarrow> (\<exists>n p cs s. readVarint (geometry_start f) = Inr (n, p) \<and>
          lg_run (nat n + pos p) (loadGeometry_init p) cs s \<and>
          \<not> pos (s_pbf s) < nat n + pos p \<and> rings = loadGeometry_result s \<and>
          (\<forall>i<length cs. cs ! i = 2 \<longrightarrow> 1 \<in> set (take i cs)))) \<and>
   (s_line t = None \<and> read_command t = Inr t1 \<and> s_cmd t1 = 7
    \<longrightarrow> loadGeometry_step t = Inr t1 \<and> s_line t1 = None \<and> s_lines t1 = s_lines t \<and>
        s_x t1 = s_x t \<and> s_y t1 = s_y t)"
proof (intro conjI impI; (elim conjE)?)
  assume hd: "readVarint (geometry_start f) = Inr (n, p)"
    and r: "lg_run (nat n + pos p) (loadGeometry_init p) cs s"
    and no: "1 \<notin> set cs" and lt: "pos (s_pbf s) < nat n + pos p"
    and c: "read_command s = Inr s1" "s_cmd s1 = 2"
  have "s_line (loadGeometry_init p) = None" by (simp add: loadGeometry_init_def)
  from lg_run_invariant [OF r this] no show none: "s_line s = None" by simp
  have "loadGeometry_loop (nat n + pos p) s =
      (case read_delta s1 of Inl e \<Rightarrow> Inl MalformedBuffer | Inr s2 \<Rightarrow> Inl TypeError)"
    using lt lineTo_without_ring [OF none c] read_delta_error [of s1]
    by (auto simp: loadGeometry_loop.simps [of _ s] split: sum.splits)
  with lg_run_loop [OF r] hd
  show "loadGeometry f = (case read_delta s1 of Inl e \<Rightarrow> Inl MalformedBuffer | Inr s2 \<Rightarrow> Inl TypeError)"
    by (simp add: loadGeometry_def split: sum.splits)
next
  assume ok: "loadGeometry f = Inr rings"
  then obtain n p s where hd: "readVarint (geometry_start f) = Inr (n, p)"
    and l: "loadGeometry_loop (nat n + pos p) (loadGeometry_init p) = Inr s"
    and res: "rings = loadGeometry_result s"
    by (auto simp: loadGeometry_def split: sum.splits)
  from lg_loop_run [OF l lg_run_start] obtain cs where
    r: "lg_run (nat n + pos p) (loadGeometry_init p) cs s" and e: "\<not> pos (s_pbf s) < nat n + pos p"
    by blast
  have "s_line (loadGeometry_init p) = None" by (simp add: loadGeometry_init_def)
  from lg_run_invariant [OF r this] hd r e res
  show "\<exists>n p cs s. readVarint (geometry_start f) = Inr (n, p) \<and>
          lg_run (nat n + pos p) (loadGeometry_init p) cs s \<and>
          \<not> pos (s_pbf s) < nat n + pos p \<and> rings = loadGeometry_result s \<and>
          (\<forall>i<length cs. cs ! i = 2 \<longrightarrow> 1 \<in> set (take i cs))"
    by blast
next
  assume a: "s_line t = None" "read_command t = Inr t1" "s_cmd t1 = 7"
  from read_command_keeps_lg [OF a(2)] a
  show "loadGeometry_step t = Inr t1" "s_line t1 = None" "s_lines t1 = s_lines t"
    "s_x t1 = s_x t" "s_y t1 = s_y t"
    by (simp_all add: loadGeometry_step_def)
qed

theorem lineTo_needs_moveTo_witness:
  "lg_run 5 (loadGeometry_init \<lparr>buf = lineTo_first_bytes, pos = 1\<rparr>) [7] after_ClosePath \<and>
   loadGeometry_step (loadGeometry_init \<lparr>buf = lineTo_first_bytes, pos = 1\<rparr>) = Inr after_ClosePath \<and>
   (\<exists>s1. read_command after_ClosePath = Inr s1 \<and> s_cmd s1 = 2) \<and>
   loadGeometry (feature_of lineTo_first_bytes) = Inl TypeError \<and>
   (\<exists>n p cs s. readVarint (geometry_start (feature_of closed_ring_bytes)) = Inr (n, p) \<and>
      lg_run (nat n + pos p) (loadGeometry_init p) cs s \<and>
      [[Point 0 0, Point 2 0, Point 2 2, Point 0 0]] = loadGeometry_result s \<and>
      (\<forall>i<length cs. cs ! i = 2 \<longrightarrow> 1 \<in> set (take i cs)))"
proof -
  let ?p = "\<lparr>buf = lineTo_first_bytes, pos = 1\<rparr>"
  let ?s1 = "after_ClosePath\<lparr>s_pbf := \<lparr>buf = lineTo_first_bytes, pos = 3\<rparr>, s_cmd := 2, s_length := 0\<rparr>"
  let ?s2 = "?s1\<lparr>s_pbf := \<lparr>buf = lineTo_first_bytes, pos = 5\<rparr>, s_x := 1, s_y := 1\<rparr>"
  note inst = lineTo_needs_moveTo [of "feature_of lineTo_first_bytes" 4 ?p "[7]" after_ClosePath ?s1
      _ "loadGeometry_init ?p" after_ClosePath]
  note inst' = lineTo_needs_moveTo [where f = "feature_of closed_ring_bytes"
      and rings = "[[Point 0 0, Point 2 0, Point 2 2, Point 0 0]]"]
  have hd: "readVarint (geometry_start (feature_of lineTo_first_bytes)) = Inr (4, ?p)"
    by (simp add: lineTo_first_bytes_def feature_of_def geometry_start_def readVarint_def round_double_exact)
  have c0: "read_command (loadGeometry_init ?p) = Inr after_ClosePath"
    by (simp add: after_ClosePath_def lineTo_first_bytes_def decode_defs)
  have st: "loadGeometry_step (loadGeometry_init ?p) = Inr after_ClosePath"
    using inst c0 by (simp add: after_ClosePath_def loadGeometry_init_def)
  have r: "lg_run 5 (loadGeometry_init ?p) [7] after_ClosePath"
    using lg_run_step [OF lg_run_start _ st, of 5]
    by (simp add: after_ClosePath_def loadGeometry_init_def)
  have c: "read_command after_ClosePath = Inr ?s1"
    by (simp add: after_ClosePath_def lineTo_first_bytes_def decode_defs)
  have d: "read_delta ?s1 = Inr ?s2"
    by (simp add: after_ClosePath_def lineTo_first_bytes_def decode_defs)
  have "pos (s_pbf after_ClosePath) < 5" by (simp add: after_ClosePath_def)
  with inst hd r c d have 1: "loadGeometry (feature_of lineTo_first_bytes) = Inl TypeError"
    by simp
  have "loadGeometry (feature_of closed_ring_bytes) = Inr [[Point 0 0, Point 2 0, Point 2 2, Point 0 0]]"
    by (simp add: closed_ring_bytes_def decode_defs)
  with inst' have 2: "\<exists>n p cs s. readVarint (geometry_start (feature_of closed_ring_bytes)) = Inr (n, p) \<and>
      lg_run (nat n + pos p) (loadGeometry_init p) cs s \<and>
      [[Point 0 0, Point 2 0, Point 2 2, Point 0 0]] = loadGeometry_result s \<and>
      (\<forall>i<length cs. cs ! i = 2 \<longrightarrow> 1 \<in> set (take i cs))"
    by blast
  from r st c 1 2 show ?thesis by simp
qed


end
